theory Spec2Isabelle
  imports Main "HOL-Library.Sublist"
begin

section \<open>JavaScript strings and objects\<close>

text \<open>
  A JavaScript string is modelled as a \<^typ>\<open>string\<close>: the bytes of its UTF-8 encoding.
  All string operations of the wizard's core (equality, concatenation, ASCII regular
  expressions, \<^verbatim>\<open>trim\<close>) act the same way on that encoding.

  An object is modelled by the list of its own properties in enumeration order, which is
  what \<^verbatim>\<open>Object.entries\<close> returns; a well-formed object has distinct keys. A
  \<^verbatim>\<open>Record<string, string>\<close> holds strings. Every object here is an object literal, a
  spread or a parsed document, so its prototype is \<^verbatim>\<open>Object.prototype\<close>: a read by a
  computed key (\<^verbatim>\<open>o[k]\<close>, \<^verbatim>\<open>k in o\<close>) that finds no own property finds the member of
  \<^verbatim>\<open>Object.prototype\<close> of that name, when there is one.
\<close>

type_synonym 'a object = "(string \<times> 'a) list"

type_synonym obj = "string object"

definition NL :: string where
  "NL = [CHR 0x0A]"

definition SQ :: string where
  "SQ = [CHR 0x27]"

definition DQ :: string where
  "DQ = [CHR 0x22]"

definition BSL :: string where
  "BSL = [CHR 0x5C]"

text \<open>\<^verbatim>\<open>Array.prototype.join\<close>.\<close>

fun join :: "string \<Rightarrow> string list \<Rightarrow> string" where
  "join sep [] = []"
| "join sep [x] = x"
| "join sep (x # y # ys) = x @ sep @ join sep (y # ys)"

text \<open>
  \<^verbatim>\<open>String.prototype.trim\<close> strips the code points WhiteSpace and LineTerminator of
  ECMAScript from both ends: U+0009 to U+000D, U+0020, U+00A0, U+1680, U+2000 to U+200A,
  U+2028, U+2029, U+202F, U+205F, U+3000 and U+FEFF, listed here in UTF-8.
\<close>

definition whiteSpace :: "string list" where
  "whiteSpace =
    [[CHR 0x09], [CHR 0x0A], [CHR 0x0B], [CHR 0x0C], [CHR 0x0D], [CHR 0x20],
     [CHR 0xC2, CHR 0xA0],
     [CHR 0xE1, CHR 0x9A, CHR 0x80],
     [CHR 0xE2, CHR 0x80, CHR 0x80], [CHR 0xE2, CHR 0x80, CHR 0x81],
     [CHR 0xE2, CHR 0x80, CHR 0x82], [CHR 0xE2, CHR 0x80, CHR 0x83],
     [CHR 0xE2, CHR 0x80, CHR 0x84], [CHR 0xE2, CHR 0x80, CHR 0x85],
     [CHR 0xE2, CHR 0x80, CHR 0x86], [CHR 0xE2, CHR 0x80, CHR 0x87],
     [CHR 0xE2, CHR 0x80, CHR 0x88], [CHR 0xE2, CHR 0x80, CHR 0x89],
     [CHR 0xE2, CHR 0x80, CHR 0x8A],
     [CHR 0xE2, CHR 0x80, CHR 0xA8], [CHR 0xE2, CHR 0x80, CHR 0xA9],
     [CHR 0xE2, CHR 0x80, CHR 0xAF],
     [CHR 0xE2, CHR 0x81, CHR 0x9F],
     [CHR 0xE3, CHR 0x80, CHR 0x80],
     [CHR 0xEF, CHR 0xBB, CHR 0xBF]]"

fun stripLeading :: "string list \<Rightarrow> string \<Rightarrow> string" where
  "stripLeading ws [] = []"
| "stripLeading ws (c # cs) =
    (case find (\<lambda>w. prefix w (c # cs)) ws of
       None \<Rightarrow> c # cs
     | Some w \<Rightarrow> stripLeading ws (drop (length w - 1) cs))"

definition trimStart :: "string \<Rightarrow> string" where
  "trimStart s = stripLeading whiteSpace s"

definition trimEnd :: "string \<Rightarrow> string" where
  "trimEnd s = rev (stripLeading (map rev whiteSpace) (rev s))"

definition trim :: "string \<Rightarrow> string" where
  "trim s = trimEnd (trimStart s)"

text \<open>
  The regular expression \<^verbatim>\<open>/^-?\d+$/\<close> (no flags): \<^verbatim>\<open>\d\<close> is an ASCII digit, and
  \<^verbatim>\<open>^\<close> and \<^verbatim>\<open>$\<close> are the two ends of the input.
\<close>

definition isDigit :: "char \<Rightarrow> bool" where
  "isDigit c = (c \<in> set ''0123456789'')"

fun digits1 :: "string \<Rightarrow> bool" where
  "digits1 [] = False"
| "digits1 [c] = isDigit c"
| "digits1 (c # d # ds) = (isDigit c \<and> digits1 (d # ds))"

fun integerPatternTest :: "string \<Rightarrow> bool" where
  "integerPatternTest [] = False"
| "integerPatternTest (c # cs) = (if c = CHR ''-'' then digits1 cs else digits1 (c # cs))"

text \<open>
  The regular expressions \<^verbatim>\<open>/word/i\<close> and \<^verbatim>\<open>/word$/i\<close>. With the flag \<^verbatim>\<open>i\<close> and without
  \<^verbatim>\<open>u\<close>, two characters match when their canonical forms (the upper-case mapping) are
  equal; a character outside ASCII never has an ASCII canonical form.
\<close>

definition canonicalize :: "char \<Rightarrow> char" where
  "canonicalize c =
    (case map_of (zip ''abcdefghijklmnopqrstuvwxyz'' ''ABCDEFGHIJKLMNOPQRSTUVWXYZ'') c of
       Some u \<Rightarrow> u
     | None \<Rightarrow> c)"

text \<open>The pattern matches at the start of the input.\<close>

fun matchHere :: "string \<Rightarrow> string \<Rightarrow> bool" where
  "matchHere [] s = True"
| "matchHere (p # ps) [] = False"
| "matchHere (p # ps) (c # cs) = (canonicalize p = canonicalize c \<and> matchHere ps cs)"

text \<open>The pattern matches the whole input: with \<^verbatim>\<open>$\<close>, the match must end the input.\<close>

fun matchWhole :: "string \<Rightarrow> string \<Rightarrow> bool" where
  "matchWhole [] [] = True"
| "matchWhole [] (c # cs) = False"
| "matchWhole (p # ps) [] = False"
| "matchWhole (p # ps) (c # cs) = (canonicalize p = canonicalize c \<and> matchWhole ps cs)"

text \<open>\<^verbatim>\<open>RegExp.prototype.test\<close>: the first start position where the pattern matches.\<close>

datatype regex = Contains string | EndsWith string

fun searchFrom :: "(string \<Rightarrow> bool) \<Rightarrow> string \<Rightarrow> bool" where
  "searchFrom m [] = m []"
| "searchFrom m (c # cs) = (m (c # cs) \<or> searchFrom m cs)"

fun regexTest :: "regex \<Rightarrow> string \<Rightarrow> bool" where
  "regexTest (Contains p) s = searchFrom (matchHere p) s"
| "regexTest (EndsWith p) s = searchFrom (matchWhole p) s"

subsection \<open>Objects\<close>

definition Object_keys :: "'a object \<Rightarrow> string list" where
  "Object_keys ob = map fst ob"

definition Object_entries :: "'a object \<Rightarrow> (string \<times> 'a) list" where
  "Object_entries ob = ob"

text \<open>
  The own property of a name; \<^const>\<open>None\<close> when the object has none. For a name that
  \<^verbatim>\<open>Object.prototype\<close> does not hold, such as the fixed names \<^verbatim>\<open>DB_TYPE\<close> or \<^verbatim>\<open>N8N_PORT\<close>
  that the code reads, this is the read \<^verbatim>\<open>o[k]\<close>, with \<^const>\<open>None\<close> for \<^verbatim>\<open>undefined\<close>.
\<close>

definition getProp :: "'a object \<Rightarrow> string \<Rightarrow> 'a option" where
  "getProp ob k = map_of ob k"

text \<open>
  The string-keyed members of \<^verbatim>\<open>Object.prototype\<close>: functions, and the accessor
  \<^verbatim>\<open>__proto__\<close>, whose getter returns \<^verbatim>\<open>Object.prototype\<close> itself.
\<close>

definition ObjectPrototype :: "string list" where
  "ObjectPrototype =
    [''constructor'', ''__defineGetter__'', ''__defineSetter__'', ''hasOwnProperty'',
     ''__lookupGetter__'', ''__lookupSetter__'', ''isPrototypeOf'', ''propertyIsEnumerable'',
     ''toString'', ''valueOf'', ''__proto__'', ''toLocaleString'']"

text \<open>
  What a read by a computed key finds: nothing, an own property, or the member of
  \<^verbatim>\<open>Object.prototype\<close> of that name.
\<close>

datatype 'a property = Missing | Own 'a | Inherited string

definition lookup :: "'a object \<Rightarrow> string \<Rightarrow> 'a property" where
  "lookup ob k =
    (case map_of ob k of
       Some v \<Rightarrow> Own v
     | None \<Rightarrow> if k \<in> set ObjectPrototype then Inherited k else Missing)"

text \<open>\<^verbatim>\<open>k in o\<close>.\<close>

definition hasProperty :: "'a object \<Rightarrow> string \<Rightarrow> bool" where
  "hasProperty ob k = (lookup ob k \<noteq> Missing)"

text \<open>
  An array index is the canonical decimal form of an integer below \<open>2^32 - 1\<close>. An object
  enumerates its array-index keys first, in ascending numeric order, and then its other
  keys in the order of their creation.
\<close>

definition decimalValue :: "string \<Rightarrow> int" where
  "decimalValue s = foldl (\<lambda>n c. 10 * n + (of_char c - 48)) 0 s"

definition isArrayIndex :: "string \<Rightarrow> bool" where
  "isArrayIndex s =
    (s \<noteq> [] \<and> list_all isDigit s \<and> (s = ''0'' \<or> hd s \<noteq> CHR ''0'') \<and>
     decimalValue s < 4294967295)"

fun insertIndexed :: "string \<Rightarrow> 'a \<Rightarrow> 'a object \<Rightarrow> 'a object" where
  "insertIndexed k v [] = [(k, v)]"
| "insertIndexed k v ((k', v') # rest) =
    (if isArrayIndex k' \<and> decimalValue k' < decimalValue k
     then (k', v') # insertIndexed k v rest
     else (k, v) # (k', v') # rest)"

text \<open>
  The definition of an own property (\<^verbatim>\<open>CreateDataProperty\<close>), by which an object literal
  and a spread receive their properties: an existing property keeps its place.
\<close>

definition setProp :: "'a object \<Rightarrow> string \<Rightarrow> 'a \<Rightarrow> 'a object" where
  "setProp ob k v =
    (if k \<in> set (map fst ob)
     then map (\<lambda>(k', v'). if k' = k then (k', v) else (k', v')) ob
     else if isArrayIndex k then insertIndexed k v ob
     else ob @ [(k, v)])"

text \<open>
  The assignment \<^verbatim>\<open>o[k] = v\<close>. It writes the own property when there is one. Otherwise it
  looks at the prototype: the function members of \<^verbatim>\<open>Object.prototype\<close> are writable data
  properties, over which the assignment creates an own property as it does for a new
  name; \<^verbatim>\<open>__proto__\<close> is an accessor, whose setter creates no property. The setter ignores
  a value that is no object and leaves the prototype as it is when it is given
  \<^verbatim>\<open>Object.prototype\<close>; only a function would become the new prototype, and the diff
  service never assigns one to \<^verbatim>\<open>__proto__\<close> (lemma \<open>revertField_ownNamed\<close> below).
\<close>

definition assign :: "'a object \<Rightarrow> string \<Rightarrow> 'a \<Rightarrow> 'a object" where
  "assign ob k v =
    (if k \<notin> set (map fst ob) \<and> k = ''__proto__'' then ob else setProp ob k v)"

text \<open>\<^verbatim>\<open>delete o[k]\<close>.\<close>

definition deleteProp :: "'a object \<Rightarrow> string \<Rightarrow> 'a object" where
  "deleteProp ob k = filter (\<lambda>(k', v'). k' \<noteq> k) ob"

text \<open>\<^verbatim>\<open>{ ...o }\<close>: a fresh object that receives the own properties of \<open>o\<close> one by one.\<close>

definition spread :: "'a object \<Rightarrow> 'a object" where
  "spread ob = foldl (\<lambda>acc (k, v). setProp acc k v) [] ob"

text \<open>
  The store holds the objects; a reference is an index into it. Allocation returns a
  reference that no earlier reference equals.
\<close>

type_synonym ref = nat

type_synonym 'a store = "'a object list"

definition alloc :: "'a object \<Rightarrow> 'a store \<Rightarrow> ref \<times> 'a store" where
  "alloc ob s = (length s, s @ [ob])"

section \<open>Constants (lib/constants.ts)\<close>

definition ENUM_VALUES :: "(string \<times> string list) list" where
  "ENUM_VALUES =
    [(''N8N_PROTOCOL'', [''http'', ''https'']),
     (''DB_TYPE'', [''sqlite'', ''postgresdb'']),
     (''EXECUTIONS_MODE'', [''regular'', ''queue'']),
     (''EXECUTIONS_DATA_SAVE_ON_ERROR'', [''all'', ''none'']),
     (''EXECUTIONS_DATA_SAVE_ON_SUCCESS'', [''all'', ''none'']),
     (''N8N_SAMESITE_COOKIE'', [''strict'', ''lax'', ''none'']),
     (''N8N_LOG_LEVEL'', [''info'', ''warn'', ''error'', ''debug'']),
     (''N8N_LOG_OUTPUT'', [''console'', ''file'']),
     (''N8N_LOG_FORMAT'', [''text'', ''json'']),
     (''N8N_DEFAULT_BINARY_DATA_MODE'', [''default'', ''filesystem'', ''s3'', ''database'']),
     (''N8N_SOURCECONTROL_DEFAULT_SSH_KEY_TYPE'', [''ed25519'', ''rsa''])]"

definition REQUIRED_FIELDS :: "string list" where
  "REQUIRED_FIELDS = [''N8N_HOST'', ''N8N_PORT'', ''DB_TYPE'']"

definition POSTGRES_REQUIRED_FIELDS :: "string list" where
  "POSTGRES_REQUIRED_FIELDS =
    [''DB_POSTGRESDB_HOST'', ''DB_POSTGRESDB_PORT'', ''DB_POSTGRESDB_DATABASE'',
     ''DB_POSTGRESDB_USER'']"

definition REDIS_REQUIRED_FIELDS :: "string list" where
  "REDIS_REQUIRED_FIELDS = [''QUEUE_BULL_REDIS_HOST'', ''QUEUE_BULL_REDIS_PORT'']"

definition NUMERIC_FIELDS :: "string list" where
  "NUMERIC_FIELDS =
    [''N8N_PORT'', ''N8N_GRACEFUL_SHUTDOWN_TIMEOUT'', ''N8N_PROXY_HOPS'',
     ''DB_POSTGRESDB_PORT'', ''DB_POSTGRESDB_POOL_SIZE'', ''DB_SQLITE_POOL_SIZE'',
     ''EXECUTIONS_TIMEOUT'', ''EXECUTIONS_TIMEOUT_MAX'', ''EXECUTIONS_DATA_MAX_AGE'',
     ''EXECUTIONS_DATA_PRUNE_MAX_COUNT'', ''N8N_CONCURRENCY_PRODUCTION_LIMIT'',
     ''QUEUE_BULL_REDIS_PORT'', ''QUEUE_BULL_REDIS_DB'', ''QUEUE_HEALTH_CHECK_PORT'',
     ''N8N_USER_MANAGEMENT_JWT_DURATION_HOURS'', ''N8N_LOG_FILE_COUNT_MAX'',
     ''N8N_LOG_FILE_SIZE_MAX'', ''N8N_SMTP_PORT'', ''N8N_PAYLOAD_SIZE_MAX'']"

definition BOOLEAN_FIELDS :: "string list" where
  "BOOLEAN_FIELDS =
    [''N8N_DISABLE_UI'', ''N8N_TEMPLATES_ENABLED'', ''DB_POSTGRESDB_SSL_ENABLED'',
     ''EXECUTIONS_DATA_PRUNE'', ''QUEUE_BULL_REDIS_TLS'', ''QUEUE_HEALTH_CHECK_ACTIVE'',
     ''N8N_MULTI_MAIN_SETUP_ENABLED'', ''OFFLOAD_MANUAL_EXECUTIONS_TO_WORKERS'',
     ''N8N_SECURE_COOKIE'', ''N8N_BLOCK_ENV_ACCESS_IN_NODE'',
     ''N8N_BLOCK_FILE_ACCESS_TO_N8N_FILES'', ''N8N_MFA_ENABLED'', ''DB_LOGGING_ENABLED'',
     ''N8N_SMTP_SSL'', ''N8N_SMTP_STARTTLS'', ''N8N_DIAGNOSTICS_ENABLED'', ''N8N_METRICS'',
     ''N8N_PUBLIC_API_DISABLED'', ''N8N_COMMUNITY_PACKAGES_ENABLED'', ''N8N_PYTHON_ENABLED'']"

subsection \<open>Validation rule factories\<close>

datatype ValidationRuleType =
  RuleRequired | RuleNumeric | RulePattern | RuleDependency | RuleEnum | RuleBoolean

record FieldValidationRule =
  ruleType :: ValidationRuleType
  ruleMessage :: string
  validate :: "string \<Rightarrow> obj \<Rightarrow> bool"

text \<open>The exception that a call of something that is no function throws.\<close>

datatype exception = JsTypeError

definition createNumericRule :: "string \<Rightarrow> FieldValidationRule" where
  "createNumericRule fieldName =
    \<lparr>ruleType = RuleNumeric,
     ruleMessage = fieldName @ '' must be a valid number'',
     validate = (\<lambda>value config. if value = '''' then True else integerPatternTest value)\<rparr>"

definition createBooleanRule :: "string \<Rightarrow> FieldValidationRule" where
  "createBooleanRule fieldName =
    \<lparr>ruleType = RuleBoolean,
     ruleMessage = fieldName @ '' must be '' @ SQ @ ''true'' @ SQ @ '' or '' @ SQ @ ''false'' @ SQ,
     validate = (\<lambda>value config.
       if value = '''' then True else value = ''true'' \<or> value = ''false'')\<rparr>"

text \<open>
  The message is built when the rule is created, by \<^verbatim>\<open>allowedValues.join(', ')\<close>: an
  array has that method; a member of \<^verbatim>\<open>Object.prototype\<close> (a function, or the prototype
  object) has no \<^verbatim>\<open>join\<close>, and the call throws.
\<close>

definition createEnumRule :: "string \<Rightarrow> string list property \<Rightarrow> exception + FieldValidationRule" where
  "createEnumRule fieldName allowedValues =
    (case allowedValues of
       Own allowed \<Rightarrow>
         Inr \<lparr>ruleType = RuleEnum,
              ruleMessage = fieldName @ '' must be one of: '' @ join '', '' allowed,
              validate = (\<lambda>value config. if value = '''' then True else value \<in> set allowed)\<rparr>
     | Inherited member \<Rightarrow> Inl JsTypeError
     | Missing \<Rightarrow> Inl JsTypeError)"

definition createRequiredRule :: "string \<Rightarrow> FieldValidationRule" where
  "createRequiredRule fieldName =
    \<lparr>ruleType = RuleRequired,
     ruleMessage = fieldName @ '' is required'',
     validate = (\<lambda>value config. value \<noteq> '''')\<rparr>"

definition createPostgresDependencyRule :: "string \<Rightarrow> FieldValidationRule" where
  "createPostgresDependencyRule fieldName =
    \<lparr>ruleType = RuleDependency,
     ruleMessage = fieldName @ '' is required when using PostgreSQL database'',
     validate = (\<lambda>value config.
       if getProp config ''DB_TYPE'' \<noteq> Some ''postgresdb'' then True
       else trim value \<noteq> '''')\<rparr>"

definition createRedisDependencyRule :: "string \<Rightarrow> FieldValidationRule" where
  "createRedisDependencyRule fieldName =
    \<lparr>ruleType = RuleDependency,
     ruleMessage = fieldName @ '' is required when using Queue mode'',
     validate = (\<lambda>value config.
       if getProp config ''EXECUTIONS_MODE'' \<noteq> Some ''queue'' then True
       else trim value \<noteq> '''')\<rparr>"

section \<open>Rule builder (lib/validation/rules.ts)\<close>

text \<open>
  The rules are pushed in the order of the tests. \<^verbatim>\<open>fieldName in ENUM_VALUES\<close> is a test
  on an object literal, so it also holds for the names of \<^verbatim>\<open>Object.prototype\<close>, and
  \<^verbatim>\<open>ENUM_VALUES[fieldName]\<close> is then the inherited member.
\<close>

definition buildFieldRules :: "string \<Rightarrow> exception + FieldValidationRule list" where
  "buildFieldRules fieldName =
    (let rules0 =
           (if fieldName \<in> set REQUIRED_FIELDS then [createRequiredRule fieldName] else []) @
           (if fieldName \<in> set NUMERIC_FIELDS then [createNumericRule fieldName] else []) @
           (if fieldName \<in> set BOOLEAN_FIELDS then [createBooleanRule fieldName] else []);
         rules1 =
           (if hasProperty ENUM_VALUES fieldName
            then (case createEnumRule fieldName (lookup ENUM_VALUES fieldName) of
                    Inl e \<Rightarrow> Inl e
                  | Inr rule \<Rightarrow> Inr (rules0 @ [rule]))
            else Inr rules0)
     in (case rules1 of
           Inl e \<Rightarrow> Inl e
         | Inr rules \<Rightarrow>
             Inr (rules @
                  (if fieldName \<in> set POSTGRES_REQUIRED_FIELDS
                   then [createPostgresDependencyRule fieldName] else []) @
                  (if fieldName \<in> set REDIS_REQUIRED_FIELDS
                   then [createRedisDependencyRule fieldName] else []))))"

text \<open>
  The module's cache of rule lists, \<^verbatim>\<open>fieldRulesCache\<close>, is the state of the rule builder.
  When the builder throws, nothing is stored.
\<close>

type_synonym rulesCache = "string \<rightharpoonup> FieldValidationRule list"

definition getFieldRules ::
  "string \<Rightarrow> rulesCache \<Rightarrow> (exception + FieldValidationRule list) \<times> rulesCache" where
  "getFieldRules fieldName cache =
    (if cache fieldName = None
     then (case buildFieldRules fieldName of
             Inl e \<Rightarrow> (Inl e, cache)
           | Inr built \<Rightarrow>
               (let cache' = cache(fieldName \<mapsto> built)
                in (Inr (case cache' fieldName of Some rules \<Rightarrow> rules | None \<Rightarrow> []), cache')))
     else (Inr (case cache fieldName of Some rules \<Rightarrow> rules | None \<Rightarrow> []), cache))"

definition clearFieldRulesCache :: "rulesCache \<Rightarrow> rulesCache" where
  "clearFieldRulesCache cache = Map.empty"

text \<open>
  Every state the cache can reach holds, for a field, the rules built for that field:
  the module writes it nowhere else.
\<close>

definition cacheBuilt :: "rulesCache \<Rightarrow> bool" where
  "cacheBuilt cache = (\<forall>f rules. cache f = Some rules \<longrightarrow> buildFieldRules f = Inr rules)"

section \<open>Validator (lib/validation/validator.ts)\<close>

datatype ErrorType = TypeError | TypeWarning

record ValidationError =
  field :: string
  message :: string
  etype :: ErrorType

record ValidationResult =
  valid :: bool
  errors :: "ValidationError list"
  warnings :: "ValidationError list"

text \<open>The loop over the rules of a field, which pushes one error for each rule that fails.\<close>

fun applyRules ::
  "FieldValidationRule list \<Rightarrow> string \<Rightarrow> string \<Rightarrow> obj \<Rightarrow> ValidationError list \<Rightarrow>
   ValidationError list" where
  "applyRules [] fieldName value config errs = errs"
| "applyRules (rule # rules) fieldName value config errs =
    (let isValid = validate rule value config
     in applyRules rules fieldName value config
          (if \<not> isValid
           then errs @ [\<lparr>field = fieldName, message = ruleMessage rule, etype = TypeError\<rparr>]
           else errs))"

definition validateField ::
  "string \<Rightarrow> string \<Rightarrow> obj \<Rightarrow> rulesCache \<Rightarrow>
   (exception + ValidationError list) \<times> rulesCache" where
  "validateField fieldName value config cache =
    (case getFieldRules fieldName cache of
       (Inl e, cache') \<Rightarrow> (Inl e, cache')
     | (Inr rules, cache') \<Rightarrow> (Inr (applyRules rules fieldName value config []), cache'))"

text \<open>
  The loop over \<^verbatim>\<open>Object.entries(config)\<close>, which appends each field's errors; an
  exception ends it.
\<close>

fun validateEntries ::
  "(string \<times> string) list \<Rightarrow> obj \<Rightarrow> ValidationError list \<Rightarrow> rulesCache \<Rightarrow>
   (exception + ValidationError list) \<times> rulesCache" where
  "validateEntries [] config errs cache = (Inr errs, cache)"
| "validateEntries ((fieldName, value) # rest) config errs cache =
    (case validateField fieldName value config cache of
       (Inl e, cache') \<Rightarrow> (Inl e, cache')
     | (Inr fieldErrors, cache') \<Rightarrow> validateEntries rest config (errs @ fieldErrors) cache')"

text \<open>
  \<^verbatim>\<open>value === undefined || value === null || value.trim() === ''\<close>, for a property read.
\<close>

definition isEmpty :: "string option \<Rightarrow> bool" where
  "isEmpty value = (case value of None \<Rightarrow> True | Some s \<Rightarrow> trim s = '''')"

text \<open>
  The loop over a list of required fields of a dependency pass; \<open>msgTail\<close> is the text of
  the message after the field's name.
\<close>

fun dependencyPass ::
  "string list \<Rightarrow> string \<Rightarrow> obj \<Rightarrow> ValidationError list \<Rightarrow> ValidationError list" where
  "dependencyPass [] msgTail config errs = errs"
| "dependencyPass (f # fs) msgTail config errs =
    (let value = getProp config f;
         alreadyHasError = list_ex (\<lambda>e. field e = f \<and> etype e = TypeError) errs
     in dependencyPass fs msgTail config
          (if isEmpty value \<and> \<not> alreadyHasError
           then errs @ [\<lparr>field = f, message = f @ msgTail, etype = TypeError\<rparr>]
           else errs))"

definition validateConfig ::
  "obj \<Rightarrow> rulesCache \<Rightarrow> (exception + ValidationResult) \<times> rulesCache" where
  "validateConfig config cache =
    (case validateEntries (Object_entries config) config [] cache of
       (Inl e, cache') \<Rightarrow> (Inl e, cache')
     | (Inr errors0, cache') \<Rightarrow>
         (let errors1 = (if getProp config ''DB_TYPE'' = Some ''postgresdb''
                         then dependencyPass POSTGRES_REQUIRED_FIELDS
                                '' is required when using PostgreSQL database'' config errors0
                         else errors0);
              errors2 = (if getProp config ''EXECUTIONS_MODE'' = Some ''queue''
                         then dependencyPass REDIS_REQUIRED_FIELDS
                                '' is required when using Queue mode'' config errors1
                         else errors1)
          in (Inr \<lparr>valid = (length errors2 = 0), errors = errors2, warnings = []\<rparr>, cache')))"

subsection \<open>Derived notions used in the statements\<close>

text \<open>
  The rules of a field whose name is no member of \<^verbatim>\<open>Object.prototype\<close>, for which the
  builder returns.
\<close>

definition fieldRules :: "string \<Rightarrow> FieldValidationRule list" where
  "fieldRules fieldName =
    (if fieldName \<in> set REQUIRED_FIELDS then [createRequiredRule fieldName] else []) @
    (if fieldName \<in> set NUMERIC_FIELDS then [createNumericRule fieldName] else []) @
    (if fieldName \<in> set BOOLEAN_FIELDS then [createBooleanRule fieldName] else []) @
    (case map_of ENUM_VALUES fieldName of
       Some allowed \<Rightarrow>
         [\<lparr>ruleType = RuleEnum,
           ruleMessage = fieldName @ '' must be one of: '' @ join '', '' allowed,
           validate = (\<lambda>value config. if value = '''' then True else value \<in> set allowed)\<rparr>]
     | None \<Rightarrow> []) @
    (if fieldName \<in> set POSTGRES_REQUIRED_FIELDS
     then [createPostgresDependencyRule fieldName] else []) @
    (if fieldName \<in> set REDIS_REQUIRED_FIELDS
     then [createRedisDependencyRule fieldName] else [])"

text \<open>The error that a failing rule pushes, and the errors of a field under its rules.\<close>

definition ruleError :: "string \<Rightarrow> FieldValidationRule \<Rightarrow> ValidationError" where
  "ruleError fieldName rule =
    \<lparr>field = fieldName, message = ruleMessage rule, etype = TypeError\<rparr>"

definition validateFieldErrors :: "string \<Rightarrow> string \<Rightarrow> obj \<Rightarrow> ValidationError list" where
  "validateFieldErrors fieldName value config =
    map (ruleError fieldName)
      (filter (\<lambda>rule. \<not> validate rule value config) (fieldRules fieldName))"

text \<open>
  A validation error does not record the rule it comes from; an error of a rule is the
  error with that rule's message for the field.
\<close>

definition numericError :: "string \<Rightarrow> ValidationError" where
  "numericError fieldName = ruleError fieldName (createNumericRule fieldName)"

definition requiredError :: "string \<Rightarrow> ValidationError" where
  "requiredError fieldName = ruleError fieldName (createRequiredRule fieldName)"

definition postgresDependencyError :: "string \<Rightarrow> ValidationError" where
  "postgresDependencyError fieldName =
    ruleError fieldName (createPostgresDependencyRule fieldName)"

definition occurrences :: "'a \<Rightarrow> 'a list \<Rightarrow> nat" where
  "occurrences x xs = length (filter (\<lambda>y. y = x) xs)"

definition entryErrors :: "obj \<Rightarrow> (string \<times> string) list \<Rightarrow> ValidationError list" where
  "entryErrors config es = concat (map (\<lambda>(f, v). validateFieldErrors f v config) es)"

definition dependencyError :: "string \<Rightarrow> string \<Rightarrow> ValidationError" where
  "dependencyError msgTail f = \<lparr>field = f, message = f @ msgTail, etype = TypeError\<rparr>"

definition hasError :: "string \<Rightarrow> ValidationError list \<Rightarrow> bool" where
  "hasError f errs = list_ex (\<lambda>e. field e = f \<and> etype e = TypeError) errs"

definition configErrors :: "obj \<Rightarrow> ValidationError list" where
  "configErrors config =
    (let errors0 = entryErrors config config;
         errors1 = (if getProp config ''DB_TYPE'' = Some ''postgresdb''
                    then dependencyPass POSTGRES_REQUIRED_FIELDS
                           '' is required when using PostgreSQL database'' config errors0
                    else errors0)
     in (if getProp config ''EXECUTIONS_MODE'' = Some ''queue''
         then dependencyPass REDIS_REQUIRED_FIELDS
                '' is required when using Queue mode'' config errors1
         else errors1))"

text \<open>No key of the object is the name of a member of \<^verbatim>\<open>Object.prototype\<close>.\<close>

definition ordinaryKeys :: "'a object \<Rightarrow> bool" where
  "ordinaryKeys ob = list_all (\<lambda>k. k \<notin> set ObjectPrototype) (Object_keys ob)"

section \<open>Field schema registry (lib/n8n-config.ts)\<close>

text \<open>
  The categories, each with its id and the names of its variables; the core reads no other
  part of the registry.
\<close>

definition categories :: "(string \<times> string list) list" where
  "categories =
    [(''deployment'',
       [''N8N_HOST'', ''N8N_PORT'', ''N8N_PROTOCOL'', ''N8N_EDITOR_BASE_URL'',
        ''N8N_PATH'', ''N8N_LISTEN_ADDRESS'', ''N8N_SSL_KEY'', ''N8N_SSL_CERT'',
        ''N8N_ENCRYPTION_KEY'', ''N8N_USER_FOLDER'', ''N8N_DISABLE_UI'',
        ''N8N_TEMPLATES_ENABLED'', ''N8N_GRACEFUL_SHUTDOWN_TIMEOUT'',
        ''N8N_PROXY_HOPS'']),
     (''database'',
       [''DB_TYPE'', ''DB_TABLE_PREFIX'', ''DB_POSTGRESDB_HOST'',
        ''DB_POSTGRESDB_PORT'', ''DB_POSTGRESDB_DATABASE'', ''DB_POSTGRESDB_USER'',
        ''DB_POSTGRESDB_PASSWORD'', ''DB_POSTGRESDB_POOL_SIZE'',
        ''DB_POSTGRESDB_SCHEMA'', ''DB_POSTGRESDB_SSL_ENABLED'',
        ''DB_SQLITE_POOL_SIZE'']),
     (''executions'',
       [''EXECUTIONS_MODE'', ''EXECUTIONS_TIMEOUT'', ''EXECUTIONS_TIMEOUT_MAX'',
        ''EXECUTIONS_DATA_SAVE_ON_ERROR'', ''EXECUTIONS_DATA_SAVE_ON_SUCCESS'',
        ''EXECUTIONS_DATA_PRUNE'', ''EXECUTIONS_DATA_MAX_AGE'',
        ''EXECUTIONS_DATA_PRUNE_MAX_COUNT'', ''N8N_CONCURRENCY_PRODUCTION_LIMIT'']),
     (''queue'',
       [''QUEUE_BULL_REDIS_HOST'', ''QUEUE_BULL_REDIS_PORT'', ''QUEUE_BULL_REDIS_DB'',
        ''QUEUE_BULL_REDIS_USERNAME'', ''QUEUE_BULL_REDIS_PASSWORD'',
        ''QUEUE_BULL_REDIS_TLS'', ''QUEUE_BULL_PREFIX'', ''QUEUE_HEALTH_CHECK_ACTIVE'',
        ''QUEUE_HEALTH_CHECK_PORT'', ''N8N_MULTI_MAIN_SETUP_ENABLED'',
        ''OFFLOAD_MANUAL_EXECUTIONS_TO_WORKERS'']),
     (''security'',
       [''N8N_SECURE_COOKIE'', ''N8N_SAMESITE_COOKIE'',
        ''N8N_BLOCK_ENV_ACCESS_IN_NODE'', ''N8N_BLOCK_FILE_ACCESS_TO_N8N_FILES'',
        ''N8N_RESTRICT_FILE_ACCESS_TO'', ''N8N_MFA_ENABLED'',
        ''N8N_USER_MANAGEMENT_JWT_SECRET'', ''N8N_USER_MANAGEMENT_JWT_DURATION_HOURS'']),
     (''logs'',
       [''N8N_LOG_LEVEL'', ''N8N_LOG_OUTPUT'', ''N8N_LOG_FORMAT'',
        ''N8N_LOG_FILE_LOCATION'', ''N8N_LOG_FILE_COUNT_MAX'',
        ''N8N_LOG_FILE_SIZE_MAX'', ''DB_LOGGING_ENABLED'']),
     (''smtp'',
       [''N8N_EMAIL_MODE'', ''N8N_SMTP_HOST'', ''N8N_SMTP_PORT'', ''N8N_SMTP_USER'',
        ''N8N_SMTP_PASS'', ''N8N_SMTP_SENDER'', ''N8N_SMTP_SSL'', ''N8N_SMTP_STARTTLS'']),
     (''storage'',
       [''N8N_DEFAULT_BINARY_DATA_MODE'', ''N8N_BINARY_DATA_STORAGE_PATH'',
        ''N8N_EXTERNAL_STORAGE_S3_HOST'', ''N8N_EXTERNAL_STORAGE_S3_BUCKET_NAME'',
        ''N8N_EXTERNAL_STORAGE_S3_BUCKET_REGION'',
        ''N8N_EXTERNAL_STORAGE_S3_ACCESS_KEY'',
        ''N8N_EXTERNAL_STORAGE_S3_ACCESS_SECRET'']),
     (''ai'',
       [''N8N_AI_ASSISTANT_BASE_URL'', ''N8N_DIAGNOSTICS_ENABLED'']),
     (''source-control'',
       [''N8N_SOURCECONTROL_DEFAULT_SSH_KEY_TYPE'']),
     (''timezone'',
       [''GENERIC_TIMEZONE'', ''N8N_DEFAULT_LOCALE'']),
     (''endpoints'',
       [''N8N_PAYLOAD_SIZE_MAX'', ''N8N_METRICS'', ''N8N_METRICS_PREFIX'',
        ''N8N_ENDPOINT_WEBHOOK'', ''N8N_ENDPOINT_WEBHOOK_TEST'', ''WEBHOOK_URL'',
        ''N8N_PUBLIC_API_DISABLED'']),
     (''nodes'',
       [''N8N_COMMUNITY_PACKAGES_ENABLED'', ''N8N_PYTHON_ENABLED'',
        ''NODE_FUNCTION_ALLOW_BUILTIN'', ''NODE_FUNCTION_ALLOW_EXTERNAL'',
        ''NODES_EXCLUDE'', ''N8N_CUSTOM_EXTENSIONS''])]"

section \<open>Diff engine (lib/diff.ts)\<close>

fun getFieldCategory_in :: "(string \<times> string list) list \<Rightarrow> string \<Rightarrow> string" where
  "getFieldCategory_in [] fieldName = ''unknown''"
| "getFieldCategory_in ((categoryId, variables) # rest) fieldName =
    (case find (\<lambda>v. v = fieldName) variables of
       Some found \<Rightarrow> categoryId
     | None \<Rightarrow> getFieldCategory_in rest fieldName)"

definition getFieldCategory :: "string \<Rightarrow> string" where
  "getFieldCategory fieldName = getFieldCategory_in categories fieldName"

datatype DiffType = Added | Modified | Removed

text \<open>
  What a property read of the diff service can return: \<^verbatim>\<open>undefined\<close>, a string, or the
  member of \<^verbatim>\<open>Object.prototype\<close> of a name (a function; for \<^verbatim>\<open>__proto__\<close> the prototype
  object). Two such members are the same value exactly when they have the same name. The
  objects of this service hold such values: the maps it is given hold strings, and an
  object it returns can hold an inherited member.
\<close>

datatype jsval = Undefined | Str string | PrototypeMember string

type_synonym jsobj = "jsval object"

text \<open>\<^verbatim>\<open>o[k]\<close>.\<close>

definition readProp :: "jsobj \<Rightarrow> string \<Rightarrow> jsval" where
  "readProp ob k =
    (case lookup ob k of
       Own v \<Rightarrow> v
     | Inherited member \<Rightarrow> PrototypeMember member
     | Missing \<Rightarrow> Undefined)"

record DiffEntry =
  dfield :: string
  category :: string
  dtype :: DiffType
  currentValue :: jsval
  defaultValue :: jsval

record DiffResult =
  entries :: "DiffEntry list"
  totalChanges :: nat
  hasChanges :: bool

text \<open>\<^verbatim>\<open>new Set([...])\<close>: the elements in the order of their first insertion.\<close>

definition newSet :: "string list \<Rightarrow> string list" where
  "newSet xs = foldl (\<lambda>s x. if x \<in> set s then s else s @ [x]) [] xs"

text \<open>\<^verbatim>\<open>o[k] ?? ''\<close>: the empty string in place of \<^verbatim>\<open>undefined\<close>.\<close>

definition readOrEmpty :: "jsobj \<Rightarrow> string \<Rightarrow> jsval" where
  "readOrEmpty ob k = (case readProp ob k of Undefined \<Rightarrow> Str '''' | v \<Rightarrow> v)"

text \<open>The loop over the keys, which pushes an entry for each key whose values differ.\<close>

fun diffLoop :: "string list \<Rightarrow> jsobj \<Rightarrow> jsobj \<Rightarrow> DiffEntry list \<Rightarrow> DiffEntry list" where
  "diffLoop [] config defaults acc = acc"
| "diffLoop (f # fs) config defaults acc =
    (let currentValue = readOrEmpty config f;
         defaultValue = readOrEmpty defaults f
     in if currentValue = defaultValue then diffLoop fs config defaults acc
        else
          (let ty = (if defaultValue = Str '''' \<and> currentValue \<noteq> Str '''' then Added
                     else if currentValue = Str '''' \<and> defaultValue \<noteq> Str '''' then Removed
                     else Modified)
           in diffLoop fs config defaults
                (acc @ [\<lparr>dfield = f, category = getFieldCategory f, dtype = ty,
                          currentValue = currentValue, defaultValue = defaultValue\<rparr>])))"

text \<open>
  \<^verbatim>\<open>String.prototype.localeCompare\<close> belongs to the host's collation, not to the
  repository: it is the parameter \<open>localeCompare\<close>, a function to the integers that is
  negative, zero or positive. The comparator of the sort looks at the category first.
\<close>

definition compareEntries :: "(string \<Rightarrow> string \<Rightarrow> int) \<Rightarrow> DiffEntry \<Rightarrow> DiffEntry \<Rightarrow> int" where
  "compareEntries localeCompare a b =
    (if category a \<noteq> category b then localeCompare (category a) (category b)
     else localeCompare (dfield a) (dfield b))"

text \<open>
  \<^verbatim>\<open>Array.prototype.sort\<close> is stable: each element is placed before the first element
  that does not have to precede it.
\<close>

fun insertSorted :: "('a \<Rightarrow> 'a \<Rightarrow> int) \<Rightarrow> 'a \<Rightarrow> 'a list \<Rightarrow> 'a list" where
  "insertSorted cmp x [] = [x]"
| "insertSorted cmp x (y # ys) =
    (if cmp x y \<le> 0 then x # y # ys else y # insertSorted cmp x ys)"

definition sortBy :: "('a \<Rightarrow> 'a \<Rightarrow> int) \<Rightarrow> 'a list \<Rightarrow> 'a list" where
  "sortBy cmp xs = foldr (insertSorted cmp) xs []"

definition computeDiff :: "(string \<Rightarrow> string \<Rightarrow> int) \<Rightarrow> jsobj \<Rightarrow> jsobj \<Rightarrow> DiffResult" where
  "computeDiff localeCompare config defaults =
    (let allKeys = newSet (Object_keys config @ Object_keys defaults);
         unsorted = diffLoop allKeys config defaults [];
         sorted = sortBy (compareEntries localeCompare) unsorted
     in \<lparr>entries = sorted, totalChanges = length sorted, hasChanges = (length sorted > 0)\<rparr>)"

text \<open>
  The revert operations build a fresh object in the store and return its reference; the
  objects of \<open>config\<close> and \<open>defaults\<close> are read only. \<^verbatim>\<open>field in defaults\<close> also holds for
  a name that \<open>defaults\<close> inherits, and \<^verbatim>\<open>defaults[field]\<close> is then the inherited member.
\<close>

definition revertField :: "string \<Rightarrow> ref \<Rightarrow> ref \<Rightarrow> jsval store \<Rightarrow> ref \<times> jsval store" where
  "revertField fld config defaults s =
    (let (newConfig, s1) = alloc (spread (s ! config)) s
     in if hasProperty (s1 ! defaults) fld
        then (newConfig, s1[newConfig := assign (s1 ! newConfig) fld (readProp (s1 ! defaults) fld)])
        else (newConfig, s1[newConfig := deleteProp (s1 ! newConfig) fld]))"

definition revertAll :: "ref \<Rightarrow> ref \<Rightarrow> 'a store \<Rightarrow> ref \<times> 'a store" where
  "revertAll config defaults s = alloc (spread (s ! defaults)) s"

subsection \<open>Derived notions used in the statements\<close>

text \<open>The ids that \<^const>\<open>getFieldCategory\<close> can return.\<close>

definition categoryIds :: "string list" where
  "categoryIds = ''unknown'' # map fst categories"

text \<open>
  A consistent comparator, as ECMAScript requires of \<^verbatim>\<open>localeCompare\<close>: the sign of the
  result changes with the order of the arguments, and "not after" is transitive. The
  collation tells the category ids apart.
\<close>

definition consistentComparator :: "(string \<Rightarrow> string \<Rightarrow> int) \<Rightarrow> bool" where
  "consistentComparator lc =
    ((\<forall>a b. (lc a b < 0) = (lc b a > 0)) \<and>
     (\<forall>a b c. lc a b \<le> 0 \<longrightarrow> lc b c \<le> 0 \<longrightarrow> lc a c \<le> 0))"

definition separatesCategories :: "(string \<Rightarrow> string \<Rightarrow> int) \<Rightarrow> bool" where
  "separatesCategories lc =
    (\<forall>a\<in>set categoryIds. \<forall>b\<in>set categoryIds. a \<noteq> b \<longrightarrow> lc a b \<noteq> 0)"

text \<open>A comparator for the examples: the order of the code units.\<close>

fun codeUnitCompare :: "string \<Rightarrow> string \<Rightarrow> int" where
  "codeUnitCompare [] [] = 0"
| "codeUnitCompare [] (y # ys) = -1"
| "codeUnitCompare (x # xs) [] = 1"
| "codeUnitCompare (x # xs) (y # ys) =
    (if (of_char x :: nat) < of_char y then -1
     else if (of_char y :: nat) < of_char x then 1
     else codeUnitCompare xs ys)"

text \<open>The entry that the loop pushes for a key whose values differ.\<close>

definition diffEntry :: "jsobj \<Rightarrow> jsobj \<Rightarrow> string \<Rightarrow> DiffEntry" where
  "diffEntry config defaults f =
    \<lparr>dfield = f, category = getFieldCategory f,
     dtype = (if readOrEmpty defaults f = Str '''' \<and> readOrEmpty config f \<noteq> Str '''' then Added
              else if readOrEmpty config f = Str '''' \<and> readOrEmpty defaults f \<noteq> Str '''' then Removed
              else Modified),
     currentValue = readOrEmpty config f, defaultValue = readOrEmpty defaults f\<rparr>"

text \<open>
  An inherited member is held only under its own name: the objects that the diff service
  is given hold strings, and \<^verbatim>\<open>revertField\<close> stores a member of \<^verbatim>\<open>Object.prototype\<close> only
  under the name by which it has read it. So no object holds a function under the key
  \<^verbatim>\<open>__proto__\<close>, which an assignment could make the prototype of an object.
\<close>

definition ownNamed :: "jsobj \<Rightarrow> bool" where
  "ownNamed ob =
    list_all (\<lambda>(k, v). case v of PrototypeMember member \<Rightarrow> member = k | _ \<Rightarrow> True) ob"

section \<open>Output generator (lib/n8n-config.ts)\<close>

record GeneratorOptions =
  format :: string
  composeVersion :: "string option"
  maskSecrets :: "bool option"
  includeComments :: "bool option"
  wizardVersion :: "string option"

text \<open>The second argument of \<^verbatim>\<open>generateOutput\<close>: a format string or an options object.\<close>

datatype FormatOrOptions = FormatString string | OptionsObject GeneratorOptions

definition SENSITIVE_PATTERNS :: "regex list" where
  "SENSITIVE_PATTERNS =
    [Contains ''password'', Contains ''secret'', Contains ''key'', Contains ''token'',
     Contains ''credential'', EndsWith ''pass'']"

definition SECRET_PLACEHOLDER :: string where
  "SECRET_PLACEHOLDER = ''********''"

definition isSensitiveField :: "string \<Rightarrow> bool" where
  "isSensitiveField fieldName = list_ex (\<lambda>pattern. regexTest pattern fieldName) SENSITIVE_PATTERNS"

definition maskSensitiveValues :: "(string \<times> string) list \<Rightarrow> bool \<Rightarrow> (string \<times> string) list" where
  "maskSensitiveValues ents maskOn =
    (if \<not> maskOn then ents
     else map (\<lambda>(key, val).
                 if isSensitiveField key \<and> val \<noteq> '''' then (key, SECRET_PLACEHOLDER)
                 else (key, val)) ents)"

text \<open>\<^verbatim>\<open>a || b\<close> on strings: \<open>b\<close> when \<open>a\<close> is undefined or empty.\<close>

definition orDefault :: "string option \<Rightarrow> string \<Rightarrow> string" where
  "orDefault a b = (case a of None \<Rightarrow> b | Some s \<Rightarrow> if s = '''' then b else s)"

text \<open>A line of a template literal, with the line break that ends it.\<close>

definition ln :: "string \<Rightarrow> string" where
  "ln s = s @ NL"

definition unlines :: "string list \<Rightarrow> string" where
  "unlines ls = concat (map ln ls)"

text \<open>
  \<^verbatim>\<open>new Date().toISOString()\<close> is the reading of the clock when the header is built: the
  parameter \<open>now\<close>.
\<close>

definition generateHeader :: "string \<Rightarrow> string option \<Rightarrow> bool \<Rightarrow> string \<Rightarrow> string" where
  "generateHeader fmt wizardVer comments now =
    (if \<not> comments \<and> fmt \<noteq> ''env'' then ''''
     else
       (let timestamp = now;
            version = orDefault wizardVer ''1.0.0'';
            commentPrefix = ''#''
        in if fmt = ''env''
           then unlines
                  [commentPrefix @ '' Generated by n8n Configuration Wizard v'' @ version,
                   commentPrefix @ '' Timestamp: '' @ timestamp,
                   commentPrefix]
           else if fmt = ''docker-compose'' \<and> comments
           then unlines
                  [''# Generated by n8n Configuration Wizard v'' @ version,
                   ''# Timestamp: '' @ timestamp,
                   ''#'']
           else if fmt = ''docker-run'' \<and> comments
           then unlines
                  [''# Generated by n8n Configuration Wizard v'' @ version,
                   ''# Timestamp: '' @ timestamp]
           else if fmt = ''kubernetes'' \<and> comments
           then unlines
                  [''# Generated by n8n Configuration Wizard v'' @ version,
                   ''# Timestamp: '' @ timestamp,
                   ''# This manifest includes a ConfigMap and Deployment for n8n'',
                   ''---'']
           else ''''))"

definition generateEnvOutput :: "(string \<times> string) list \<Rightarrow> GeneratorOptions \<Rightarrow> string \<Rightarrow> string" where
  "generateEnvOutput ents options now =
    (let header = generateHeader ''env'' (wizardVersion options) True now;
         content = join NL (map (\<lambda>(key, val). key @ ''='' @ val) ents)
     in header @ content)"

definition generateDockerComposeOutput ::
  "obj \<Rightarrow> (string \<times> string) list \<Rightarrow> GeneratorOptions \<Rightarrow> string \<Rightarrow> string" where
  "generateDockerComposeOutput config ents options now =
    (let composeVer = orDefault (composeVersion options) ''3.8'';
         comments = (case includeComments options of None \<Rightarrow> False | Some b \<Rightarrow> b);
         header = generateHeader ''docker-compose'' (wizardVersion options) comments now;
         envVars = join NL (map (\<lambda>(key, val). ''      - '' @ key @ ''='' @ val) ents);
         n8nServiceComment =
           (if comments
            then unlines [''  # n8n workflow automation service'',
                          ''  # Documentation: https://docs.n8n.io/'']
            else '''');
         volumesComment =
           (if comments then unlines [''# Persistent volumes for data storage''] else '''');
         postgresComment =
           (if comments then unlines [''  # PostgreSQL database for n8n data persistence'']
            else '''');
         redisComment =
           (if comments then unlines [''  # Redis for queue mode execution''] else '''');
         output0 =
           header @
           unlines [''version: '' @ SQ @ composeVer @ SQ, '''', ''services:''] @
           n8nServiceComment @
           unlines
             [''  n8n:'',
              ''    image: docker.n8n.io/n8nio/n8n'',
              ''    restart: always'',
              ''    ports:'',
              ''      - '' @ DQ @ orDefault (getProp config ''N8N_PORT'') ''5678'' @ '':5678'' @ DQ,
              ''    environment:'',
              envVars,
              ''    volumes:'',
              ''      - n8n_data:/home/node/.n8n''];
         output1 =
           (if getProp config ''DB_TYPE'' = Some ''postgresdb''
            then output0 @ unlines [''''] @ postgresComment @
                 unlines
                   [''  postgres:'',
                    ''    image: postgres:15-alpine'',
                    ''    restart: always'',
                    ''    environment:'',
                    ''      - POSTGRES_USER='' @
                      orDefault (getProp config ''DB_POSTGRESDB_USER'') ''postgres'',
                    ''      - POSTGRES_PASSWORD='' @
                      orDefault (getProp config ''DB_POSTGRESDB_PASSWORD'') ''password'',
                    ''      - POSTGRES_DB='' @
                      orDefault (getProp config ''DB_POSTGRESDB_DATABASE'') ''n8n'',
                    ''    volumes:'',
                    ''      - postgres_data:/var/lib/postgresql/data'']
            else output0);
         output2 =
           (if getProp config ''EXECUTIONS_MODE'' = Some ''queue''
            then output1 @ unlines [''''] @ redisComment @
                 unlines
                   [''  redis:'',
                    ''    image: redis:7-alpine'',
                    ''    restart: always'',
                    ''    volumes:'',
                    ''      - redis_data:/data'']
            else output1);
         output3 = output2 @ unlines [''''] @ volumesComment @ unlines [''volumes:''] @ ''  n8n_data:'';
         output4 =
           (if getProp config ''DB_TYPE'' = Some ''postgresdb''
            then output3 @ NL @ ''  postgres_data:'' else output3);
         output5 =
           (if getProp config ''EXECUTIONS_MODE'' = Some ''queue''
            then output4 @ NL @ ''  redis_data:'' else output4)
     in output5)"

definition generateDockerRunOutput ::
  "obj \<Rightarrow> (string \<times> string) list \<Rightarrow> GeneratorOptions \<Rightarrow> string \<Rightarrow> string" where
  "generateDockerRunOutput config ents options now =
    (let comments = (case includeComments options of None \<Rightarrow> False | Some b \<Rightarrow> b);
         header = generateHeader ''docker-run'' (wizardVersion options) comments now;
         envFlags = join ('' '' @ BSL @ NL @ ''  '')
                      (map (\<lambda>(key, val). ''-e '' @ key @ ''='' @ DQ @ val @ DQ) ents)
     in header @
        unlines
          [''docker run -d '' @ BSL,
           ''  --name n8n '' @ BSL,
           ''  --restart always '' @ BSL,
           ''  -p '' @ orDefault (getProp config ''N8N_PORT'') ''5678'' @ '':5678 '' @ BSL,
           ''  '' @ envFlags @ '' '' @ BSL,
           ''  -v n8n_data:/home/node/.n8n '' @ BSL] @
        ''  docker.n8n.io/n8nio/n8n'')"

text \<open>\<^verbatim>\<open>value.replace(/"/g, '\\"')\<close>: a backslash before every double quote.\<close>

definition escapeQuotes :: "string \<Rightarrow> string" where
  "escapeQuotes s = concat (map (\<lambda>c. if c = CHR 0x22 then BSL @ DQ else [c]) s)"

definition generateKubernetesOutput ::
  "obj \<Rightarrow> (string \<times> string) list \<Rightarrow> GeneratorOptions \<Rightarrow> string \<Rightarrow> string" where
  "generateKubernetesOutput config ents options now =
    (let comments = (case includeComments options of None \<Rightarrow> False | Some b \<Rightarrow> b);
         header = generateHeader ''kubernetes'' (wizardVersion options) comments now;
         configMapData =
           join NL (map (\<lambda>(key, val). ''  '' @ key @ '': '' @ DQ @ escapeQuotes val @ DQ) ents);
         envFromConfigMap =
           join NL
             (map (\<lambda>(key, val).
                     join NL
                       [''        - name: '' @ key,
                        ''          valueFrom:'',
                        ''            configMapKeyRef:'',
                        ''              name: n8n-config'',
                        ''              key: '' @ key]) ents);
         configMapComment =
           (if comments then unlines [''# ConfigMap containing n8n environment variables'']
            else '''');
         deploymentComment =
           (if comments then unlines [''# Deployment for n8n workflow automation''] else '''')
     in header @ configMapComment @
        unlines
          [''apiVersion: v1'',
           ''kind: ConfigMap'',
           ''metadata:'',
           ''  name: n8n-config'',
           ''  labels:'',
           ''    app: n8n'',
           ''data:'',
           configMapData,
           ''---''] @
        deploymentComment @
        unlines
          [''apiVersion: apps/v1'',
           ''kind: Deployment'',
           ''metadata:'',
           ''  name: n8n'',
           ''  labels:'',
           ''    app: n8n'',
           ''spec:'',
           ''  replicas: 1'',
           ''  selector:'',
           ''    matchLabels:'',
           ''      app: n8n'',
           ''  template:'',
           ''    metadata:'',
           ''      labels:'',
           ''        app: n8n'',
           ''    spec:'',
           ''      containers:'',
           ''      - name: n8n'',
           ''        image: docker.n8n.io/n8nio/n8n'',
           ''        ports:'',
           ''        - containerPort: 5678'',
           ''        env:'',
           envFromConfigMap,
           ''        volumeMounts:'',
           ''        - name: n8n-data'',
           ''          mountPath: /home/node/.n8n'',
           ''      volumes:'',
           ''      - name: n8n-data'',
           ''        persistentVolumeClaim:'',
           ''          claimName: n8n-data-pvc'',
           ''---'',
           ''apiVersion: v1'',
           ''kind: Service'',
           ''metadata:'',
           ''  name: n8n'',
           ''  labels:'',
           ''    app: n8n'',
           ''spec:'',
           ''  type: ClusterIP'',
           ''  ports:'',
           ''  - port: 5678'',
           ''    targetPort: 5678'',
           ''  selector:''] @
        ''    app: n8n'')"

text \<open>
  The entries that every format renders: the entries with a non-empty value, masked when
  \<open>maskOn\<close> is set.
\<close>

definition outputEntries :: "obj \<Rightarrow> bool \<Rightarrow> (string \<times> string) list" where
  "outputEntries config maskOn =
    maskSensitiveValues (filter (\<lambda>(key, val). val \<noteq> '''') (Object_entries config)) maskOn"

definition optionsOf :: "FormatOrOptions \<Rightarrow> GeneratorOptions" where
  "optionsOf formatOrOptions =
    (case formatOrOptions of
       FormatString f \<Rightarrow>
         \<lparr>format = f, composeVersion = None, maskSecrets = None, includeComments = None,
          wizardVersion = None\<rparr>
     | OptionsObject opts \<Rightarrow> opts)"

definition generateOutput :: "obj \<Rightarrow> FormatOrOptions \<Rightarrow> string \<Rightarrow> string" where
  "generateOutput config formatOrOptions now =
    (let options = optionsOf formatOrOptions;
         fmt = format options;
         maskOn = (case maskSecrets options of None \<Rightarrow> False | Some b \<Rightarrow> b);
         ents = outputEntries config maskOn
     in if fmt = ''env'' then generateEnvOutput ents options now
        else if fmt = ''docker-compose'' then generateDockerComposeOutput config ents options now
        else if fmt = ''docker-run'' then generateDockerRunOutput config ents options now
        else if fmt = ''kubernetes'' then generateKubernetesOutput config ents options now
        else '''')"

subsection \<open>Derived notions used in the statements\<close>

text \<open>
  The sensitive names in the words of the specification: the lower-cased name contains
  one of five words, or ends in \<open>pass\<close>.
\<close>

definition lowerCase :: "char \<Rightarrow> char" where
  "lowerCase c =
    (case map_of (zip ''ABCDEFGHIJKLMNOPQRSTUVWXYZ'' ''abcdefghijklmnopqrstuvwxyz'') c of
       Some l \<Rightarrow> l
     | None \<Rightarrow> c)"

definition specSensitiveName :: "string \<Rightarrow> bool" where
  "specSensitiveName name =
    (list_ex (\<lambda>w. sublist w (map lowerCase name))
       [''password'', ''secret'', ''key'', ''token'', ''credential''] \<or>
     suffix ''pass'' (map lowerCase name))"

text \<open>
  The entries of an output in the words of the specification: one for each key whose
  value is not the empty string, in the order of the map; with masking, the value of a
  sensitive name is the placeholder and every other value is the key's own.
\<close>

definition survivingEntries :: "obj \<Rightarrow> bool \<Rightarrow> (string \<times> string) list" where
  "survivingEntries config maskOn =
    map (\<lambda>(key, val).
           (key, if maskOn \<and> specSensitiveName key then SECRET_PLACEHOLDER else val))
      (filter (\<lambda>(key, val). val \<noteq> '''') config)"

text \<open>The lines of a text: the pieces between its line breaks.\<close>

fun splitLines :: "string \<Rightarrow> string list" where
  "splitLines [] = [[]]"
| "splitLines (c # cs) =
    (if c = CHR 0x0A then [] # splitLines cs
     else (c # hd (splitLines cs)) # tl (splitLines cs))"

definition oneLine :: "string \<Rightarrow> bool" where
  "oneLine s = (CHR 0x0A \<notin> set s)"

text \<open>
  The lines of the compose file, block by block: the header, the n8n service with the
  rendered entries, the database service, the queue service, and the volumes section.
\<close>

definition composeHeaderLines :: "bool \<Rightarrow> string option \<Rightarrow> string \<Rightarrow> string list" where
  "composeHeaderLines comments wizardVer now =
    (if comments
     then [''# Generated by n8n Configuration Wizard v'' @ orDefault wizardVer ''1.0.0'',
           ''# Timestamp: '' @ now,
           ''#'']
     else [])"

definition n8nServiceLines ::
  "obj \<Rightarrow> (string \<times> string) list \<Rightarrow> bool \<Rightarrow> string option \<Rightarrow> string list" where
  "n8nServiceLines config ents comments composeVer =
    [''version: '' @ SQ @ orDefault composeVer ''3.8'' @ SQ, '''', ''services:''] @
    (if comments
     then [''  # n8n workflow automation service'', ''  # Documentation: https://docs.n8n.io/'']
     else []) @
    [''  n8n:'',
     ''    image: docker.n8n.io/n8nio/n8n'',
     ''    restart: always'',
     ''    ports:'',
     ''      - '' @ DQ @ orDefault (getProp config ''N8N_PORT'') ''5678'' @ '':5678'' @ DQ,
     ''    environment:''] @
    (if ents = [] then ['''']
     else map (\<lambda>(key, val). ''      - '' @ key @ ''='' @ val) ents) @
    [''    volumes:'', ''      - n8n_data:/home/node/.n8n'']"

definition postgresServiceLines :: "obj \<Rightarrow> bool \<Rightarrow> string list" where
  "postgresServiceLines config comments =
    [''''] @
    (if comments then [''  # PostgreSQL database for n8n data persistence''] else []) @
    [''  postgres:'',
     ''    image: postgres:15-alpine'',
     ''    restart: always'',
     ''    environment:'',
     ''      - POSTGRES_USER='' @ orDefault (getProp config ''DB_POSTGRESDB_USER'') ''postgres'',
     ''      - POSTGRES_PASSWORD='' @
       orDefault (getProp config ''DB_POSTGRESDB_PASSWORD'') ''password'',
     ''      - POSTGRES_DB='' @ orDefault (getProp config ''DB_POSTGRESDB_DATABASE'') ''n8n'',
     ''    volumes:'',
     ''      - postgres_data:/var/lib/postgresql/data'']"

definition redisServiceLines :: "bool \<Rightarrow> string list" where
  "redisServiceLines comments =
    [''''] @
    (if comments then [''  # Redis for queue mode execution''] else []) @
    [''  redis:'',
     ''    image: redis:7-alpine'',
     ''    restart: always'',
     ''    volumes:'',
     ''      - redis_data:/data'']"

definition volumesLines :: "bool \<Rightarrow> bool \<Rightarrow> bool \<Rightarrow> string list" where
  "volumesLines database queue comments =
    [''''] @
    (if comments then [''# Persistent volumes for data storage''] else []) @
    [''volumes:'', ''  n8n_data:''] @
    (if database then [''  postgres_data:''] else []) @
    (if queue then [''  redis_data:''] else [])"

text \<open>No key, value or option of the call holds a line break.\<close>

definition oneLineInputs :: "obj \<Rightarrow> GeneratorOptions \<Rightarrow> string \<Rightarrow> bool" where
  "oneLineInputs config options now =
    (list_all (\<lambda>(key, val). oneLine key \<and> oneLine val) config \<and>
     oneLine (orDefault (composeVersion options) ''3.8'') \<and>
     oneLine (orDefault (wizardVersion options) ''1.0.0'') \<and>
     oneLine now)"

text \<open>
  The compose file as a list of lines: the database block and its volume stand under
  \<^verbatim>\<open>DB_TYPE = "postgresdb"\<close>, the queue block and its volume under
  \<^verbatim>\<open>EXECUTIONS_MODE = "queue"\<close>.
\<close>

definition composeDocument :: "obj \<Rightarrow> FormatOrOptions \<Rightarrow> string \<Rightarrow> string list" where
  "composeDocument config fo now =
    (let options = optionsOf fo;
         comments = (includeComments options = Some True);
         database = (getProp config ''DB_TYPE'' = Some ''postgresdb'');
         queue = (getProp config ''EXECUTIONS_MODE'' = Some ''queue'')
     in composeHeaderLines comments (wizardVersion options) now @
        n8nServiceLines config (survivingEntries config (maskSecrets options = Some True))
          comments (composeVersion options) @
        (if database then postgresServiceLines config comments else []) @
        (if queue then redisServiceLines comments else []) @
        volumesLines database queue comments)"

text \<open>
  The other three formats as lists of lines. Each has one item for each entry, and one
  empty line in their place when there is no entry: an environment file holds
  \<^verbatim>\<open>KEY=VALUE\<close>, the run command a flag \<^verbatim>\<open>-e KEY="VALUE"\<close>, and the manifest a line
  \<^verbatim>\<open>KEY: "VALUE"\<close> of the config map, in which a backslash precedes every double quote of
  the value, and a reference to the key in the deployment.
\<close>

definition envDocument :: "(string \<times> string) list \<Rightarrow> GeneratorOptions \<Rightarrow> string \<Rightarrow> string list" where
  "envDocument ents options now =
    [''# Generated by n8n Configuration Wizard v'' @ orDefault (wizardVersion options) ''1.0.0'',
     ''# Timestamp: '' @ now,
     ''#''] @
    (if ents = [] then [''''] else map (\<lambda>(key, val). key @ ''='' @ val) ents)"

definition dockerRunDocument ::
  "obj \<Rightarrow> (string \<times> string) list \<Rightarrow> GeneratorOptions \<Rightarrow> string \<Rightarrow> string list" where
  "dockerRunDocument config ents options now =
    (if includeComments options = Some True
     then [''# Generated by n8n Configuration Wizard v'' @
             orDefault (wizardVersion options) ''1.0.0'',
           ''# Timestamp: '' @ now]
     else []) @
    [''docker run -d '' @ BSL,
     ''  --name n8n '' @ BSL,
     ''  --restart always '' @ BSL,
     ''  -p '' @ orDefault (getProp config ''N8N_PORT'') ''5678'' @ '':5678 '' @ BSL] @
    (if ents = [] then [''   '' @ BSL]
     else map (\<lambda>(key, val). ''  -e '' @ key @ ''='' @ DQ @ val @ DQ @ '' '' @ BSL) ents) @
    [''  -v n8n_data:/home/node/.n8n '' @ BSL,
     ''  docker.n8n.io/n8nio/n8n'']"

fun quoteEscaped :: "string \<Rightarrow> string" where
  "quoteEscaped [] = []"
| "quoteEscaped (c # cs) =
    (if c = CHR 0x22 then CHR 0x5C # CHR 0x22 # quoteEscaped cs else c # quoteEscaped cs)"

definition kubernetesDocument ::
  "(string \<times> string) list \<Rightarrow> GeneratorOptions \<Rightarrow> string \<Rightarrow> string list" where
  "kubernetesDocument ents options now =
    (if includeComments options = Some True
     then [''# Generated by n8n Configuration Wizard v'' @
             orDefault (wizardVersion options) ''1.0.0'',
           ''# Timestamp: '' @ now,
           ''# This manifest includes a ConfigMap and Deployment for n8n'',
           ''---'',
           ''# ConfigMap containing n8n environment variables'']
     else []) @
    [''apiVersion: v1'',
     ''kind: ConfigMap'',
     ''metadata:'',
     ''  name: n8n-config'',
     ''  labels:'',
     ''    app: n8n'',
     ''data:''] @
    (if ents = [] then ['''']
     else map (\<lambda>(key, val). ''  '' @ key @ '': '' @ DQ @ quoteEscaped val @ DQ) ents) @
    [''---''] @
    (if includeComments options = Some True
     then [''# Deployment for n8n workflow automation''] else []) @
    [''apiVersion: apps/v1'',
     ''kind: Deployment'',
     ''metadata:'',
     ''  name: n8n'',
     ''  labels:'',
     ''    app: n8n'',
     ''spec:'',
     ''  replicas: 1'',
     ''  selector:'',
     ''    matchLabels:'',
     ''      app: n8n'',
     ''  template:'',
     ''    metadata:'',
     ''      labels:'',
     ''        app: n8n'',
     ''    spec:'',
     ''      containers:'',
     ''      - name: n8n'',
     ''        image: docker.n8n.io/n8nio/n8n'',
     ''        ports:'',
     ''        - containerPort: 5678'',
     ''        env:''] @
    (if ents = [] then ['''']
     else concat (map (\<lambda>(key, val).
                         [''        - name: '' @ key,
                          ''          valueFrom:'',
                          ''            configMapKeyRef:'',
                          ''              name: n8n-config'',
                          ''              key: '' @ key]) ents)) @
    [''        volumeMounts:'',
     ''        - name: n8n-data'',
     ''          mountPath: /home/node/.n8n'',
     ''      volumes:'',
     ''      - name: n8n-data'',
     ''        persistentVolumeClaim:'',
     ''          claimName: n8n-data-pvc'',
     ''---'',
     ''apiVersion: v1'',
     ''kind: Service'',
     ''metadata:'',
     ''  name: n8n'',
     ''  labels:'',
     ''    app: n8n'',
     ''spec:'',
     ''  type: ClusterIP'',
     ''  ports:'',
     ''  - port: 5678'',
     ''    targetPort: 5678'',
     ''  selector:'',
     ''    app: n8n'']"

text \<open>
  The document of a call: that of its format, over the entries of the configuration; a
  format that is none of the four gives the empty text.
\<close>

definition outputDocument :: "obj \<Rightarrow> FormatOrOptions \<Rightarrow> string \<Rightarrow> string list" where
  "outputDocument config fo now =
    (let options = optionsOf fo;
         ents = survivingEntries config (maskSecrets options = Some True)
     in if format options = ''env'' then envDocument ents options now
        else if format options = ''docker-compose'' then composeDocument config fo now
        else if format options = ''docker-run'' then dockerRunDocument config ents options now
        else if format options = ''kubernetes'' then kubernetesDocument ents options now
        else [''''])"

section \<open>Validation\<close>

text \<open>
  For a name that \<^verbatim>\<open>Object.prototype\<close> does not hold, a read finds the own property or
  nothing; the names that the validator and the generator read as fixed keys are such
  names.
\<close>

lemma lookup_ordinary:
  "k \<notin> set ObjectPrototype \<Longrightarrow>
   lookup ob k = (case getProp ob k of None \<Rightarrow> Missing | Some v \<Rightarrow> Own v)"
  by (simp add: lookup_def getProp_def split: option.split)

lemma fixed_names_ordinary:
  "k \<in> set (POSTGRES_REQUIRED_FIELDS @ REDIS_REQUIRED_FIELDS @
             [''DB_TYPE'', ''EXECUTIONS_MODE'', ''N8N_PORT'', ''DB_POSTGRESDB_USER'',
              ''DB_POSTGRESDB_PASSWORD'', ''DB_POSTGRESDB_DATABASE'']) \<Longrightarrow>
   k \<notin> set ObjectPrototype"
  by (auto simp: POSTGRES_REQUIRED_FIELDS_def REDIS_REQUIRED_FIELDS_def ObjectPrototype_def)

lemma applyRules_eq:
  "applyRules rules f v config errs =
     errs @ map (ruleError f) (filter (\<lambda>rule. \<not> validate rule v config) rules)"
  by (induction rules arbitrary: errs) (simp_all add: ruleError_def)

lemma ENUM_VALUES_ordinary:
  assumes "map_of ENUM_VALUES f = Some allowed"
  shows "f \<notin> set ObjectPrototype"
proof -
  from assms have "f \<in> fst ` set ENUM_VALUES"
    by (metis domI dom_map_of_conv_image_fst)
  then show ?thesis
    by (auto simp: ENUM_VALUES_def ObjectPrototype_def)
qed

lemma buildFieldRules_eq:
  "buildFieldRules f =
     (if f \<in> set ObjectPrototype then Inl JsTypeError else Inr (fieldRules f))"
proof (cases "map_of ENUM_VALUES f")
  case None
  show ?thesis
  proof (cases "f \<in> set ObjectPrototype")
    case True
    with None have "lookup ENUM_VALUES f = Inherited f" by (simp add: lookup_def)
    with True show ?thesis
      by (simp add: buildFieldRules_def hasProperty_def createEnumRule_def)
  next
    case False
    with None have "lookup ENUM_VALUES f = Missing" by (simp add: lookup_def)
    with False None show ?thesis
      by (simp add: buildFieldRules_def hasProperty_def fieldRules_def)
  qed
next
  case (Some allowed)
  then have l: "lookup ENUM_VALUES f = Own allowed" by (simp add: lookup_def)
  from Some have "f \<notin> set ObjectPrototype" by (rule ENUM_VALUES_ordinary)
  with l Some show ?thesis
    by (simp add: buildFieldRules_def hasProperty_def createEnumRule_def fieldRules_def)
qed

lemma cacheBuilt_empty: "cacheBuilt Map.empty"
  by (simp add: cacheBuilt_def)

lemma cacheBuilt_clear: "cacheBuilt (clearFieldRulesCache cache)"
  by (simp add: clearFieldRulesCache_def cacheBuilt_def)

lemma getFieldRules_built:
  assumes "cacheBuilt cache"
  shows "fst (getFieldRules f cache) = buildFieldRules f"
    and "cacheBuilt (snd (getFieldRules f cache))"
proof -
  show "fst (getFieldRules f cache) = buildFieldRules f"
  proof (cases "cache f")
    case None
    then show ?thesis
      by (cases "buildFieldRules f") (simp_all add: getFieldRules_def)
  next
    case (Some rules)
    with assms have "buildFieldRules f = Inr rules" by (simp add: cacheBuilt_def)
    with Some show ?thesis by (simp add: getFieldRules_def)
  qed
  show "cacheBuilt (snd (getFieldRules f cache))"
  proof (cases "cache f")
    case None
    show ?thesis
    proof (cases "buildFieldRules f")
      case (Inl e)
      with None assms show ?thesis by (simp add: getFieldRules_def)
    next
      case (Inr built)
      with None assms show ?thesis
        by (auto simp: getFieldRules_def cacheBuilt_def Let_def)
    qed
  next
    case (Some rules)
    with assms show ?thesis by (simp add: getFieldRules_def)
  qed
qed

lemma validateField_built:
  assumes "cacheBuilt cache"
  shows "fst (validateField f v config cache) =
           (if f \<in> set ObjectPrototype then Inl JsTypeError
            else Inr (validateFieldErrors f v config))"
    and "cacheBuilt (snd (validateField f v config cache))"
proof -
  obtain r c' where g: "getFieldRules f cache = (r, c')" by (cases "getFieldRules f cache")
  from getFieldRules_built[OF assms, of f] g
  have r: "r = buildFieldRules f" and c': "cacheBuilt c'" by simp_all
  show "fst (validateField f v config cache) =
           (if f \<in> set ObjectPrototype then Inl JsTypeError
            else Inr (validateFieldErrors f v config))"
    by (simp add: validateField_def g r buildFieldRules_eq validateFieldErrors_def applyRules_eq)
  show "cacheBuilt (snd (validateField f v config cache))"
    using c' by (cases r) (simp_all add: validateField_def g)
qed

lemma validateEntries_built:
  assumes "cacheBuilt cache"
  shows "fst (validateEntries es config errs cache) =
           (if list_all (\<lambda>k. k \<notin> set ObjectPrototype) (map fst es)
            then Inr (errs @ concat (map (\<lambda>(f, v). validateFieldErrors f v config) es))
            else Inl JsTypeError) \<and>
         cacheBuilt (snd (validateEntries es config errs cache))"
  using assms
proof (induction es arbitrary: errs cache)
  case Nil
  then show ?case by simp
next
  case (Cons a es)
  obtain f v where a: "a = (f, v)" by (cases a)
  obtain r c' where vf: "validateField f v config cache = (r, c')"
    by (cases "validateField f v config cache")
  from validateField_built[OF Cons.prems, of f v config] vf
  have r: "r = (if f \<in> set ObjectPrototype then Inl JsTypeError
                else Inr (validateFieldErrors f v config))"
    and c': "cacheBuilt c'" by simp_all
  show ?case
  proof (cases "f \<in> set ObjectPrototype")
    case True
    with r c' show ?thesis by (simp add: a vf)
  next
    case False
    with r have r': "r = Inr (validateFieldErrors f v config)" by simp
    from Cons.IH[OF c', of "errs @ validateFieldErrors f v config"] False
    show ?thesis by (simp add: a vf r')
  qed
qed

lemma digits1_iff: "digits1 ds \<longleftrightarrow> ds \<noteq> [] \<and> list_all isDigit ds"
  by (induction ds rule: digits1.induct) auto

lemma integerPatternTest_iff:
  "integerPatternTest v \<longleftrightarrow>
     (\<exists>ds. ds \<noteq> [] \<and> list_all isDigit ds \<and> (v = ds \<or> v = CHR ''-'' # ds))"
proof (cases v)
  case Nil
  then show ?thesis by auto
next
  case (Cons c cs)
  show ?thesis
  proof (cases "c = CHR ''-''")
    case True
    have "\<not> isDigit (CHR ''-'')" by (simp add: isDigit_def)
    with True Cons show ?thesis by (auto simp: digits1_iff)
  next
    case False
    with Cons show ?thesis by (auto simp: digits1_iff)
  qed
qed

lemmas rule_defs = createRequiredRule_def createNumericRule_def createBooleanRule_def
  createPostgresDependencyRule_def createRedisDependencyRule_def

lemma count_numericError:
  "occurrences (numericError f) (validateFieldErrors f v config) =
     (if f \<in> set NUMERIC_FIELDS \<and> \<not> (v = '''' \<or> integerPatternTest v) then 1 else 0)"
  by (simp add: occurrences_def validateFieldErrors_def fieldRules_def numericError_def
      ruleError_def rule_defs SQ_def split: option.split)

text \<open>
  Claim C8. For a field of the numeric set, \<^verbatim>\<open>validateField\<close> returns a list of errors,
  which holds no error of the numeric rule when the value is empty or is an optional
  minus sign followed by one or more ASCII digits, and exactly one such error for every
  other value.
\<close>

theorem numeric_rule_errors:
  assumes "fieldName \<in> set NUMERIC_FIELDS" and "cacheBuilt cache"
  shows "\<exists>errs. fst (validateField fieldName val config cache) = Inr errs \<and>
           occurrences (numericError fieldName) errs =
             (if val = '''' \<or>
                 (\<exists>ds. ds \<noteq> [] \<and> list_all isDigit ds \<and> (val = ds \<or> val = CHR ''-'' # ds))
              then 0 else 1)"
proof -
  from assms(1) have "fieldName \<notin> set ObjectPrototype"
    by (auto simp: NUMERIC_FIELDS_def ObjectPrototype_def)
  with validateField_built(1)[OF assms(2), of fieldName val config]
  have "fst (validateField fieldName val config cache) =
          Inr (validateFieldErrors fieldName val config)"
    by simp
  moreover have "occurrences (numericError fieldName) (validateFieldErrors fieldName val config) =
             (if val = '''' \<or>
                 (\<exists>ds. ds \<noteq> [] \<and> list_all isDigit ds \<and> (val = ds \<or> val = CHR ''-'' # ds))
              then 0 else 1)"
    using assms(1) by (simp add: count_numericError integerPatternTest_iff del: ex_simps all_simps)
  ultimately show ?thesis by blast
qed

theorem numeric_rule_errors_witness:
  "(\<exists>errs. fst (validateField ''N8N_PORT'' ''1.5'' [(''N8N_PORT'', ''1.5'')] Map.empty) = Inr errs \<and>
      occurrences (numericError ''N8N_PORT'') errs = 1) \<and>
   (\<exists>errs. fst (validateField ''EXECUTIONS_TIMEOUT'' ''-1'' [] Map.empty) = Inr errs \<and>
      occurrences (numericError ''EXECUTIONS_TIMEOUT'') errs = 0)"
proof -
  have c: "cacheBuilt Map.empty" by (simp add: cacheBuilt_def)
  have m1: "''N8N_PORT'' \<in> set NUMERIC_FIELDS" by (simp add: NUMERIC_FIELDS_def)
  have m2: "''EXECUTIONS_TIMEOUT'' \<in> set NUMERIC_FIELDS" by (simp add: NUMERIC_FIELDS_def)
  have n1: "\<not> (\<exists>ds. ds \<noteq> [] \<and> list_all isDigit ds \<and> (''1.5'' = ds \<or> ''1.5'' = CHR ''-'' # ds))"
    by (auto simp: isDigit_def)
  have n2: "\<exists>ds. ds \<noteq> [] \<and> list_all isDigit ds \<and> (''-1'' = ds \<or> ''-1'' = CHR ''-'' # ds)"
    by (rule exI[of _ "''1''"]) (simp add: isDigit_def)
  have k1: "(''1.5'' = '''' \<or>
       (\<exists>ds. ds \<noteq> [] \<and> list_all isDigit ds \<and> (''1.5'' = ds \<or> ''1.5'' = CHR ''-'' # ds))) = False"
  proof -
    have "''1.5'' \<noteq> ''''" by simp
    with n1 show ?thesis by blast
  qed
  have k2: "(''-1'' = '''' \<or>
       (\<exists>ds. ds \<noteq> [] \<and> list_all isDigit ds \<and> (''-1'' = ds \<or> ''-1'' = CHR ''-'' # ds))) = True"
    using n2 by blast
  have a: "\<exists>errs. fst (validateField ''N8N_PORT'' ''1.5'' [(''N8N_PORT'', ''1.5'')] Map.empty) = Inr errs \<and>
      occurrences (numericError ''N8N_PORT'') errs = 1"
    using numeric_rule_errors[OF m1 c, where val="''1.5''" and config="[(''N8N_PORT'', ''1.5'')]"]
    unfolding k1 if_False .
  have b: "\<exists>errs. fst (validateField ''EXECUTIONS_TIMEOUT'' ''-1'' [] Map.empty) = Inr errs \<and>
      occurrences (numericError ''EXECUTIONS_TIMEOUT'') errs = 0"
    using numeric_rule_errors[OF m2 c, where val="''-1''" and config="[]"]
    unfolding k2 if_True .
  from a b show ?thesis by (rule conjI)
qed

section \<open>Dependency passes\<close>

lemma validateFieldErrors_field:
  "e \<in> set (validateFieldErrors f v config) \<Longrightarrow> field e = f \<and> etype e = TypeError"
  by (auto simp: validateFieldErrors_def ruleError_def)

lemma occurrences_append [simp]: "occurrences x (xs @ ys) = occurrences x xs + occurrences x ys"
  by (simp add: occurrences_def)

lemma occurrences_Nil [simp]: "occurrences x [] = 0"
  by (simp add: occurrences_def)

lemma occurrences_Cons [simp]: "occurrences x (y # ys) = (if y = x then 1 else 0) + occurrences x ys"
  by (simp add: occurrences_def)

lemma occurrences_0: "x \<notin> set xs \<Longrightarrow> occurrences x xs = 0"
  by (induction xs) auto

lemma occurrences_pos: "0 < occurrences x xs \<Longrightarrow> x \<in> set xs"
  by (induction xs) (auto split: if_splits)

lemma entryErrors_simps [simp]:
  "entryErrors config [] = []"
  "entryErrors config ((f, v) # es) = validateFieldErrors f v config @ entryErrors config es"
  by (simp_all add: entryErrors_def)

lemma entryErrors_field:
  "e \<in> set (entryErrors config es) \<Longrightarrow> field e \<in> fst ` set es \<and> etype e = TypeError"
  by (induction es) (auto dest: validateFieldErrors_field)

lemma entryErrors_mem:
  "(f, v) \<in> set es \<Longrightarrow> set (validateFieldErrors f v config) \<subseteq> set (entryErrors config es)"
  by (induction es) auto

lemma entryErrors_Nil_iff:
  "entryErrors config es = [] \<longleftrightarrow> (\<forall>(f, v)\<in>set es. validateFieldErrors f v config = [])"
  by (induction es) auto

lemma entryErrors_occurrences:
  "distinct (map fst es) \<Longrightarrow>
   occurrences x (entryErrors config es) =
     (case map_of es (field x) of
        None \<Rightarrow> 0
      | Some v \<Rightarrow> occurrences x (validateFieldErrors (field x) v config))"
proof (induction es)
  case Nil
  then show ?case by simp
next
  case (Cons a es)
  obtain k v where a: "a = (k, v)" by (cases a)
  show ?case
  proof (cases "k = field x")
    case True
    with Cons.prems a have "field x \<notin> fst ` set es" by auto
    then have "x \<notin> set (entryErrors config es)" by (auto dest: entryErrors_field)
    then show ?thesis using True a by (simp add: occurrences_0)
  next
    case False
    then have "x \<notin> set (validateFieldErrors k v config)"
      by (auto dest: validateFieldErrors_field)
    then show ?thesis using False a Cons by (simp add: occurrences_0)
  qed
qed

lemma dependencyPass_step:
  "dependencyPass (f # fs) t config errs =
     dependencyPass fs t config
       (if isEmpty (getProp config f) \<and> \<not> hasError f errs
        then errs @ [dependencyError t f] else errs)"
  by (simp add: hasError_def dependencyError_def)

lemma dependencyPass_added:
  "\<exists>added. dependencyPass fs t config errs = errs @ added \<and>
     (\<forall>e\<in>set added. field e \<in> set fs \<and> e = dependencyError t (field e) \<and>
        isEmpty (getProp config (field e)))"
proof (induction fs arbitrary: errs)
  case Nil
  then show ?case by simp
next
  case (Cons f fs)
  let ?errs' = "if isEmpty (getProp config f) \<and> \<not> hasError f errs
        then errs @ [dependencyError t f] else errs"
  from Cons.IH[of ?errs'] obtain added where
    a: "dependencyPass fs t config ?errs' = ?errs' @ added"
    and b: "\<forall>e\<in>set added. field e \<in> set fs \<and> e = dependencyError t (field e) \<and>
        isEmpty (getProp config (field e))" by blast
  show ?case
  proof (cases "isEmpty (getProp config f) \<and> \<not> hasError f errs")
    case True
    then have "dependencyPass (f # fs) t config errs = errs @ (dependencyError t f # added)"
      using a by (simp only: dependencyPass_step) simp
    moreover have "\<forall>e\<in>set (dependencyError t f # added). field e \<in> set (f # fs) \<and>
        e = dependencyError t (field e) \<and> isEmpty (getProp config (field e))"
      using b True by (auto simp: dependencyError_def)
    ultimately show ?thesis by blast
  next
    case False
    then have "dependencyPass (f # fs) t config errs = errs @ added"
      using a by (simp only: dependencyPass_step) auto
    moreover have "\<forall>e\<in>set added. field e \<in> set (f # fs) \<and>
        e = dependencyError t (field e) \<and> isEmpty (getProp config (field e))"
      using b by auto
    ultimately show ?thesis by blast
  qed
qed

lemma dependencyPass_mono: "set errs \<subseteq> set (dependencyPass fs t config errs)"
  using dependencyPass_added[of fs t config errs] by auto

lemma hasError_iff: "hasError f errs \<longleftrightarrow> (\<exists>e\<in>set errs. field e = f \<and> etype e = TypeError)"
  by (simp add: hasError_def list_ex_iff)

lemma dependencyPass_covers:
  "f \<in> set fs \<Longrightarrow> isEmpty (getProp config f) \<Longrightarrow>
   \<exists>e\<in>set (dependencyPass fs t config errs). field e = f \<and> etype e = TypeError"
proof (induction fs arbitrary: errs)
  case Nil
  then show ?case by simp
next
  case (Cons g fs)
  let ?errs' = "if isEmpty (getProp config g) \<and> \<not> hasError g errs
        then errs @ [dependencyError t g] else errs"
  show ?case
  proof (cases "g = f")
    case True
    have "\<exists>e\<in>set ?errs'. field e = f \<and> etype e = TypeError"
      using True Cons.prems(2) by (auto simp: hasError_iff dependencyError_def)
    then show ?thesis
      using dependencyPass_mono[of ?errs' fs t config]
      by (simp only: dependencyPass_step) blast
  next
    case False
    with Cons.prems have "f \<in> set fs" by simp
    from Cons.IH[OF this Cons.prems(2), of ?errs'] show ?thesis
      by (simp only: dependencyPass_step)
  qed
qed

lemma dependencyPass_occurrences:
  "distinct fs \<Longrightarrow>
   occurrences x (dependencyPass fs t config errs) =
     occurrences x errs +
     (if field x \<in> set fs \<and> x = dependencyError t (field x) \<and>
         isEmpty (getProp config (field x)) \<and> \<not> hasError (field x) errs
      then 1 else 0)"
proof (induction fs arbitrary: errs)
  case Nil
  then show ?case by simp
next
  case (Cons g fs)
  let ?errs' = "if isEmpty (getProp config g) \<and> \<not> hasError g errs
        then errs @ [dependencyError t g] else errs"
  from Cons.prems have d: "distinct fs" and g: "g \<notin> set fs" by simp_all
  have step: "occurrences x (dependencyPass (g # fs) t config errs) =
     occurrences x ?errs' +
     (if field x \<in> set fs \<and> x = dependencyError t (field x) \<and>
         isEmpty (getProp config (field x)) \<and> \<not> hasError (field x) ?errs'
      then 1 else 0)"
    using Cons.IH[OF d, of ?errs'] by (simp only: dependencyPass_step)
  show ?case
  proof (cases "g = field x")
    case True
    then show ?thesis using step g
      by (auto simp: dependencyError_def)
  next
    case False
    then have "hasError (field x) ?errs' = hasError (field x) errs"
      by (auto simp: hasError_iff dependencyError_def)
    moreover have "occurrences x ?errs' = occurrences x errs"
      using False by (auto simp: dependencyError_def)
    ultimately show ?thesis using step False by simp
  qed
qed

lemma dependencyPass_Nil_iff:
  "dependencyPass fs t config errs = [] \<longleftrightarrow>
     errs = [] \<and> (\<forall>f\<in>set fs. \<not> isEmpty (getProp config f))"
proof (induction fs arbitrary: errs)
  case Nil
  then show ?case by simp
next
  case (Cons g fs)
  show ?case
    by (simp only: dependencyPass_step Cons.IH) (auto simp: hasError_iff)
qed

section \<open>validateConfig\<close>

lemma validateConfig_built:
  assumes "cacheBuilt cache"
  shows "fst (validateConfig config cache) =
           (if ordinaryKeys config
            then Inr \<lparr>valid = (configErrors config = []), errors = configErrors config,
                      warnings = []\<rparr>
            else Inl JsTypeError)"
    and "cacheBuilt (snd (validateConfig config cache))"
proof -
  obtain r c' where ve: "validateEntries config config [] cache = (r, c')"
    by (cases "validateEntries config config [] cache")
  from validateEntries_built[OF assms, of config config "[]"] ve
  have r: "r = (if ordinaryKeys config then Inr (entryErrors config config) else Inl JsTypeError)"
    and c': "cacheBuilt c'"
    by (simp_all add: entryErrors_def ordinaryKeys_def Object_keys_def)
  show "fst (validateConfig config cache) =
           (if ordinaryKeys config
            then Inr \<lparr>valid = (configErrors config = []), errors = configErrors config,
                      warnings = []\<rparr>
            else Inl JsTypeError)"
    by (simp add: validateConfig_def Object_entries_def ve r configErrors_def Let_def)
  show "cacheBuilt (snd (validateConfig config cache))"
    using c' by (cases r) (simp_all add: validateConfig_def Object_entries_def ve Let_def)
qed

lemma postgresDependencyError_eq:
  "postgresDependencyError f =
     dependencyError '' is required when using PostgreSQL database'' f"
  by (simp add: postgresDependencyError_def dependencyError_def ruleError_def
      createPostgresDependencyRule_def)

lemma count_postgresDependencyError:
  "occurrences (postgresDependencyError f) (validateFieldErrors f v config) =
     (if f \<in> set POSTGRES_REQUIRED_FIELDS \<and> getProp config ''DB_TYPE'' = Some ''postgresdb'' \<and>
         trim v = '''' then 1 else 0)"
  by (simp add: occurrences_def validateFieldErrors_def fieldRules_def
      postgresDependencyError_def ruleError_def rule_defs SQ_def split: option.split)

lemma field_postgresDependencyError [simp]: "field (postgresDependencyError f) = f"
  by (simp add: postgresDependencyError_def ruleError_def)

lemma entryErrors_postgres:
  assumes "distinct (map fst config)" and "f \<in> set POSTGRES_REQUIRED_FIELDS"
    and "getProp config ''DB_TYPE'' = Some ''postgresdb''"
  shows "occurrences (postgresDependencyError f) (entryErrors config config) =
           (case getProp config f of None \<Rightarrow> 0 | Some v \<Rightarrow> if trim v = '''' then 1 else 0)"
  using assms
  by (simp add: entryErrors_occurrences count_postgresDependencyError getProp_def
      split: option.split)

lemma postgres_pass_occurrences:
  assumes "distinct (map fst config)" and "f \<in> set POSTGRES_REQUIRED_FIELDS"
    and "getProp config ''DB_TYPE'' = Some ''postgresdb''"
  shows "occurrences (postgresDependencyError f)
           (dependencyPass POSTGRES_REQUIRED_FIELDS
              '' is required when using PostgreSQL database'' config (entryErrors config config)) =
         (if isEmpty (getProp config f) then 1 else 0)"
proof -
  let ?x = "postgresDependencyError f"
  let ?e0 = "entryErrors config config"
  have d: "distinct POSTGRES_REQUIRED_FIELDS" by (simp add: POSTGRES_REQUIRED_FIELDS_def)
  have occ: "occurrences ?x (dependencyPass POSTGRES_REQUIRED_FIELDS
              '' is required when using PostgreSQL database'' config ?e0) =
      occurrences ?x ?e0 +
      (if isEmpty (getProp config f) \<and> \<not> hasError f ?e0 then 1 else 0)"
    using dependencyPass_occurrences[OF d, of ?x _ config ?e0] assms(2)
    by (simp add: postgresDependencyError_eq[symmetric])
  show ?thesis
  proof (cases "getProp config f")
    case None
    then have "f \<notin> fst ` set config" by (simp add: getProp_def map_of_eq_None_iff)
    then have "\<not> hasError f ?e0" by (auto simp: hasError_iff dest: entryErrors_field)
    then show ?thesis using occ None entryErrors_postgres[OF assms] by (simp add: isEmpty_def)
  next
    case (Some v)
    show ?thesis
    proof (cases "trim v = ''''")
      case True
      then have one: "occurrences ?x ?e0 = 1" using Some entryErrors_postgres[OF assms] by simp
      then have "?x \<in> set ?e0" by (simp add: occurrences_pos)
      moreover have "etype ?x = TypeError" by (simp add: postgresDependencyError_def ruleError_def)
      ultimately have "hasError f ?e0" by (auto simp: hasError_iff intro!: bexI[of _ ?x])
      then show ?thesis using occ one Some True by (simp add: isEmpty_def)
    next
      case False
      then show ?thesis using occ Some entryErrors_postgres[OF assms] by (simp add: isEmpty_def)
    qed
  qed
qed

lemma configErrors_postgres_occurrences:
  assumes "distinct (map fst config)" and "f \<in> set POSTGRES_REQUIRED_FIELDS"
    and "getProp config ''DB_TYPE'' = Some ''postgresdb''"
  shows "occurrences (postgresDependencyError f) (configErrors config) =
           (if isEmpty (getProp config f) then 1 else 0)"
proof -
  have d: "distinct REDIS_REQUIRED_FIELDS" by (simp add: REDIS_REQUIRED_FIELDS_def)
  have nr: "f \<notin> set REDIS_REQUIRED_FIELDS"
    using assms(2) by (auto simp: REDIS_REQUIRED_FIELDS_def POSTGRES_REQUIRED_FIELDS_def)
  show ?thesis
    using postgres_pass_occurrences[OF assms] nr assms(3)
    by (simp add: configErrors_def Let_def dependencyPass_occurrences[OF d])
qed

lemma no_postgres_error_without_postgres:
  assumes "getProp config ''DB_TYPE'' \<noteq> Some ''postgresdb''"
  shows "postgresDependencyError f \<notin> set (configErrors config)"
proof
  assume mem: "postgresDependencyError f \<in> set (configErrors config)"
  let ?x = "postgresDependencyError f"
  have e0: "?x \<notin> set (entryErrors config config)"
  proof
    assume "?x \<in> set (entryErrors config config)"
    then obtain k v where kv: "(k, v) \<in> set config" "?x \<in> set (validateFieldErrors k v config)"
      by (auto simp: entryErrors_def)
    then have "k = f" by (auto dest: validateFieldErrors_field)
    with kv(2) have "0 < occurrences ?x (validateFieldErrors f v config)"
      by (auto simp: occurrences_def filter_empty_conv)
    then show False using assms by (simp add: count_postgresDependencyError)
  qed
  show False
  proof (cases "getProp config ''EXECUTIONS_MODE'' = Some ''queue''")
    case True
    with mem assms have "?x \<in> set (dependencyPass REDIS_REQUIRED_FIELDS
                '' is required when using Queue mode'' config (entryErrors config config))"
      by (simp add: configErrors_def Let_def)
    moreover obtain added where
      "dependencyPass REDIS_REQUIRED_FIELDS '' is required when using Queue mode'' config
         (entryErrors config config) = entryErrors config config @ added"
      and "\<forall>e\<in>set added. e = dependencyError '' is required when using Queue mode'' (field e)"
      using dependencyPass_added[of REDIS_REQUIRED_FIELDS "'' is required when using Queue mode''"
        config "entryErrors config config"] by blast
    ultimately have "?x = dependencyError '' is required when using Queue mode'' (field ?x)"
      using e0 by auto
    then have "?x = dependencyError '' is required when using Queue mode'' f" by simp
    then show False by (simp add: postgresDependencyError_eq dependencyError_def)
  next
    case False
    with mem assms e0 show False by (simp add: configErrors_def Let_def)
  qed
qed

text \<open>
  For a configuration with ordinary keys the validator returns, and with
  \<^verbatim>\<open>DB_TYPE = "postgresdb"\<close> each of the four PostgreSQL fields whose value is absent or
  empty after trimming has its dependency error exactly once (the pass appends it only
  when the field has no error yet), and the result is not valid; with any other
  \<^verbatim>\<open>DB_TYPE\<close> no PostgreSQL dependency error is produced.
\<close>

lemma validateConfig_postgres_dependency:
  assumes "cacheBuilt cache" and "distinct (Object_keys config)" and "ordinaryKeys config"
  shows "\<exists>r. fst (validateConfig config cache) = Inr r \<and>
           (getProp config ''DB_TYPE'' = Some ''postgresdb'' \<longrightarrow>
              (\<forall>f\<in>set POSTGRES_REQUIRED_FIELDS.
                 occurrences (postgresDependencyError f) (errors r) =
                   (if isEmpty (getProp config f) then 1 else 0) \<and>
                 (isEmpty (getProp config f) \<longrightarrow>
                    (\<exists>e\<in>set (errors r). field e = f) \<and> \<not> valid r))) \<and>
           (getProp config ''DB_TYPE'' \<noteq> Some ''postgresdb'' \<longrightarrow>
              (\<forall>f. postgresDependencyError f \<notin> set (errors r)))"
proof -
  let ?r = "\<lparr>valid = (configErrors config = []), errors = configErrors config, warnings = []\<rparr>"
  from validateConfig_built(1)[OF assms(1), of config] assms(3)
  have vc: "fst (validateConfig config cache) = Inr ?r" by simp
  from assms(2) have d: "distinct (map fst config)" by (simp add: Object_keys_def)
  have a: "getProp config ''DB_TYPE'' = Some ''postgresdb'' \<longrightarrow>
              (\<forall>f\<in>set POSTGRES_REQUIRED_FIELDS.
                 occurrences (postgresDependencyError f) (errors ?r) =
                   (if isEmpty (getProp config f) then 1 else 0) \<and>
                 (isEmpty (getProp config f) \<longrightarrow>
                    (\<exists>e\<in>set (errors ?r). field e = f) \<and> \<not> valid ?r))"
  proof (intro impI ballI conjI)
    fix f
    assume pg: "getProp config ''DB_TYPE'' = Some ''postgresdb''"
      and f: "f \<in> set POSTGRES_REQUIRED_FIELDS"
    show occ: "occurrences (postgresDependencyError f) (errors ?r) =
                 (if isEmpty (getProp config f) then 1 else 0)"
      by (simp add: configErrors_postgres_occurrences[OF d f pg])
    assume "isEmpty (getProp config f)"
    with occ have m: "postgresDependencyError f \<in> set (errors ?r)"
      by (simp add: occurrences_pos)
    then show "\<exists>e\<in>set (errors ?r). field e = f"
      by (rule bexI[rotated]) simp
    from m show "\<not> valid ?r" by auto
  qed
  have b: "getProp config ''DB_TYPE'' \<noteq> Some ''postgresdb'' \<longrightarrow>
              (\<forall>f. postgresDependencyError f \<notin> set (errors ?r))"
    by (simp add: no_postgres_error_without_postgres)
  from vc a b show ?thesis by blast
qed

lemma validateConfig_postgres_only:
  assumes "cacheBuilt cache"
  shows "fst (validateConfig [(''DB_TYPE'', ''postgresdb'')] cache) =
           Inr \<lparr>valid = False,
                errors = map postgresDependencyError POSTGRES_REQUIRED_FIELDS,
                warnings = []\<rparr>"
proof -
  have o: "ordinaryKeys [(''DB_TYPE'', ''postgresdb'')]"
    by (simp add: ordinaryKeys_def Object_keys_def ObjectPrototype_def)
  show ?thesis
    unfolding validateConfig_built(1)[OF assms] using o
    by (simp add: configErrors_def getProp_def validateFieldErrors_def fieldRules_def
        REQUIRED_FIELDS_def NUMERIC_FIELDS_def BOOLEAN_FIELDS_def ENUM_VALUES_def
        POSTGRES_REQUIRED_FIELDS_def REDIS_REQUIRED_FIELDS_def rule_defs isEmpty_def
        postgresDependencyError_def ruleError_def)
qed

text \<open>
  Claim C1. With \<^verbatim>\<open>DB_TYPE = "postgresdb"\<close> the validator is to report each missing
  PostgreSQL field and to return \<^verbatim>\<open>valid = false\<close>. For the configuration
  \<^verbatim>\<open>{DB_TYPE: "postgresdb", constructor: "x"}\<close>, in which all four fields are missing, it
  returns nothing: the rule builder takes the inherited \<^verbatim>\<open>constructor\<close> of \<^verbatim>\<open>ENUM_VALUES\<close>
  for a list of allowed values and throws, where \<^verbatim>\<open>{DB_TYPE: "postgresdb"}\<close> alone gives
  the four errors.
\<close>

theorem validateConfig_postgres_inherited_key:
  "fst (validateConfig [(''DB_TYPE'', ''postgresdb''), (''constructor'', ''x'')] Map.empty) =
     Inl JsTypeError \<and>
   fst (validateConfig [(''DB_TYPE'', ''postgresdb'')] Map.empty) =
     Inr \<lparr>valid = False,
          errors = map postgresDependencyError POSTGRES_REQUIRED_FIELDS,
          warnings = []\<rparr>"
proof -
  have n: "\<not> ordinaryKeys [(''DB_TYPE'', ''postgresdb''), (''constructor'', ''x'')]"
    by (simp add: ordinaryKeys_def Object_keys_def ObjectPrototype_def)
  have t: "fst (validateConfig [(''DB_TYPE'', ''postgresdb''), (''constructor'', ''x'')] Map.empty) =
     Inl JsTypeError"
    unfolding validateConfig_built(1)[OF cacheBuilt_empty] using n by simp
  from t validateConfig_postgres_only[OF cacheBuilt_empty] show ?thesis by (rule conjI)
qed

lemma configErrors_origin:
  assumes "e \<in> set (configErrors config)"
  shows "field e \<in> set (Object_keys config) \<or>
         (getProp config ''DB_TYPE'' = Some ''postgresdb'' \<and> field e \<in> set POSTGRES_REQUIRED_FIELDS) \<or>
         (getProp config ''EXECUTIONS_MODE'' = Some ''queue'' \<and> field e \<in> set REDIS_REQUIRED_FIELDS)"
proof -
  let ?e0 = "entryErrors config config"
  let ?e1 = "if getProp config ''DB_TYPE'' = Some ''postgresdb''
             then dependencyPass POSTGRES_REQUIRED_FIELDS
                    '' is required when using PostgreSQL database'' config ?e0
             else ?e0"
  have a0: "\<And>x. x \<in> set ?e0 \<Longrightarrow> field x \<in> set (Object_keys config)"
    by (auto simp: Object_keys_def dest: entryErrors_field)
  have a1: "\<And>x. x \<in> set ?e1 \<Longrightarrow> field x \<in> set (Object_keys config) \<or>
         (getProp config ''DB_TYPE'' = Some ''postgresdb'' \<and> field x \<in> set POSTGRES_REQUIRED_FIELDS)"
    using a0 dependencyPass_added[of POSTGRES_REQUIRED_FIELDS
        "'' is required when using PostgreSQL database''" config ?e0]
    by (auto split: if_splits)
  have "e \<in> set (if getProp config ''EXECUTIONS_MODE'' = Some ''queue''
         then dependencyPass REDIS_REQUIRED_FIELDS
                '' is required when using Queue mode'' config ?e1
         else ?e1)"
    using assms by (simp add: configErrors_def Let_def)
  then show ?thesis
    using a1[of e] dependencyPass_added[of REDIS_REQUIRED_FIELDS
        "'' is required when using Queue mode''" config ?e1]
    by (auto split: if_splits)
qed

lemma configErrors_Nil_iff:
  "configErrors config = [] \<longleftrightarrow>
     (\<forall>(k, v)\<in>set config. validateFieldErrors k v config = []) \<and>
     (getProp config ''DB_TYPE'' = Some ''postgresdb'' \<longrightarrow>
        (\<forall>f\<in>set POSTGRES_REQUIRED_FIELDS. \<not> isEmpty (getProp config f))) \<and>
     (getProp config ''EXECUTIONS_MODE'' = Some ''queue'' \<longrightarrow>
        (\<forall>f\<in>set REDIS_REQUIRED_FIELDS. \<not> isEmpty (getProp config f)))"
  by (auto simp: configErrors_def Let_def dependencyPass_Nil_iff entryErrors_Nil_iff)

lemma entryErrors_subset_configErrors:
  "set (entryErrors config config) \<subseteq> set (configErrors config)"
proof -
  let ?e0 = "entryErrors config config"
  let ?e1 = "if getProp config ''DB_TYPE'' = Some ''postgresdb''
             then dependencyPass POSTGRES_REQUIRED_FIELDS
                    '' is required when using PostgreSQL database'' config ?e0
             else ?e0"
  have "set ?e0 \<subseteq> set ?e1"
    using dependencyPass_mono[of ?e0] by simp
  moreover have "set ?e1 \<subseteq> set (configErrors config)"
    using dependencyPass_mono[of ?e1 REDIS_REQUIRED_FIELDS] by (simp add: configErrors_def Let_def)
  ultimately show ?thesis by blast
qed

lemma requiredError_mem:
  assumes "f \<in> set REQUIRED_FIELDS"
  shows "requiredError f \<in> set (validateFieldErrors f '''' config)"
  using assms
  by (simp add: validateFieldErrors_def fieldRules_def requiredError_def
      createRequiredRule_def)

text \<open>
  For a configuration with ordinary keys the validator returns, and per-field validation
  has run only for the keys of the configuration: every error belongs to a present key or
  to a field of an active dependency pass, so a required field that is absent has no
  error and validity depends on the present keys and the two passes alone; a required
  field present with the empty string has its required error.
\<close>

lemma validateConfig_absent_required:
  assumes "cacheBuilt cache" and "ordinaryKeys config"
  shows "\<exists>r. fst (validateConfig config cache) = Inr r \<and>
           (\<forall>e\<in>set (errors r).
              field e \<in> set (Object_keys config) \<or>
              (getProp config ''DB_TYPE'' = Some ''postgresdb'' \<and>
                 field e \<in> set POSTGRES_REQUIRED_FIELDS) \<or>
              (getProp config ''EXECUTIONS_MODE'' = Some ''queue'' \<and>
                 field e \<in> set REDIS_REQUIRED_FIELDS)) \<and>
           (\<forall>f\<in>set REQUIRED_FIELDS. f \<notin> set (Object_keys config) \<longrightarrow>
              (\<forall>e\<in>set (errors r). field e \<noteq> f)) \<and>
           (valid r \<longleftrightarrow>
              (\<forall>(k, v)\<in>set (Object_entries config). fst (validateField k v config cache) = Inr []) \<and>
              (getProp config ''DB_TYPE'' = Some ''postgresdb'' \<longrightarrow>
                 (\<forall>f\<in>set POSTGRES_REQUIRED_FIELDS. \<not> isEmpty (getProp config f))) \<and>
              (getProp config ''EXECUTIONS_MODE'' = Some ''queue'' \<longrightarrow>
                 (\<forall>f\<in>set REDIS_REQUIRED_FIELDS. \<not> isEmpty (getProp config f)))) \<and>
           (\<forall>f\<in>set REQUIRED_FIELDS. getProp config f = Some '''' \<longrightarrow>
              requiredError f \<in> set (errors r) \<and> \<not> valid r)"
proof -
  let ?r = "\<lparr>valid = (configErrors config = []), errors = configErrors config, warnings = []\<rparr>"
  from validateConfig_built(1)[OF assms(1), of config] assms(2)
  have vc: "fst (validateConfig config cache) = Inr ?r" by simp
  have origin: "\<forall>e\<in>set (errors ?r).
            field e \<in> set (Object_keys config) \<or>
            (getProp config ''DB_TYPE'' = Some ''postgresdb'' \<and>
               field e \<in> set POSTGRES_REQUIRED_FIELDS) \<or>
            (getProp config ''EXECUTIONS_MODE'' = Some ''queue'' \<and>
               field e \<in> set REDIS_REQUIRED_FIELDS)"
    using configErrors_origin[of _ config] by simp
  have absent: "\<forall>f\<in>set REQUIRED_FIELDS. f \<notin> set (Object_keys config) \<longrightarrow>
            (\<forall>e\<in>set (errors ?r). field e \<noteq> f)"
  proof (intro ballI impI)
    fix f e
    assume f: "f \<in> set REQUIRED_FIELDS" and a: "f \<notin> set (Object_keys config)"
      and e: "e \<in> set (errors ?r)"
    from f have "f \<notin> set POSTGRES_REQUIRED_FIELDS" "f \<notin> set REDIS_REQUIRED_FIELDS"
      by (auto simp: REQUIRED_FIELDS_def POSTGRES_REQUIRED_FIELDS_def REDIS_REQUIRED_FIELDS_def)
    with origin e a show "field e \<noteq> f" by blast
  qed
  have each: "fst (validateField k v config cache) = Inr (validateFieldErrors k v config)"
    if "(k, v) \<in> set config" for k v
  proof -
    from that assms(2) have "k \<notin> set ObjectPrototype"
      by (auto simp: ordinaryKeys_def Object_keys_def list_all_iff)
    with validateField_built(1)[OF assms(1), of k v config] show ?thesis by simp
  qed
  have validity: "valid ?r \<longleftrightarrow>
            (\<forall>(k, v)\<in>set (Object_entries config). fst (validateField k v config cache) = Inr []) \<and>
            (getProp config ''DB_TYPE'' = Some ''postgresdb'' \<longrightarrow>
               (\<forall>f\<in>set POSTGRES_REQUIRED_FIELDS. \<not> isEmpty (getProp config f))) \<and>
            (getProp config ''EXECUTIONS_MODE'' = Some ''queue'' \<longrightarrow>
               (\<forall>f\<in>set REDIS_REQUIRED_FIELDS. \<not> isEmpty (getProp config f)))"
  proof -
    have "(\<forall>(k, v)\<in>set (Object_entries config). fst (validateField k v config cache) = Inr []) =
          (\<forall>(k, v)\<in>set config. validateFieldErrors k v config = [])"
      using each by (auto simp: Object_entries_def)
    then show ?thesis by (simp add: configErrors_Nil_iff)
  qed
  have present: "\<forall>f\<in>set REQUIRED_FIELDS. getProp config f = Some '''' \<longrightarrow>
            requiredError f \<in> set (errors ?r) \<and> \<not> valid ?r"
  proof (intro ballI impI)
    fix f
    assume f: "f \<in> set REQUIRED_FIELDS" and g: "getProp config f = Some ''''"
    from g have "(f, '''') \<in> set config" by (simp add: getProp_def map_of_SomeD)
    then have "requiredError f \<in> set (entryErrors config config)"
      using entryErrors_mem[of f "''''" config config] requiredError_mem[OF f, of config] by blast
    then have "requiredError f \<in> set (configErrors config)"
      using entryErrors_subset_configErrors[of config] by blast
    then show "requiredError f \<in> set (errors ?r) \<and> \<not> valid ?r"
      by auto
  qed
  from vc origin absent validity present show ?thesis by blast
qed

text \<open>
  Claim C7. A required field that is absent is to produce no error, a required field
  present with the empty string is to produce one, and the empty configuration is valid.
  For \<^verbatim>\<open>{N8N_HOST: "", constructor: "x"}\<close> the validator produces no error list at all, and
  for \<^verbatim>\<open>{constructor: "x"}\<close>, where nothing is to be reported, no result: the rule builder
  throws at the inherited name, where \<^verbatim>\<open>{N8N_HOST: ""}\<close> alone gives the required error
  and \<^verbatim>\<open>{}\<close> is valid.
\<close>

theorem validateConfig_required_inherited_key:
  "fst (validateConfig [(''N8N_HOST'', ''''), (''constructor'', ''x'')] Map.empty) =
     Inl JsTypeError \<and>
   fst (validateConfig [(''constructor'', ''x'')] Map.empty) = Inl JsTypeError \<and>
   fst (validateConfig [(''N8N_HOST'', '''')] Map.empty) =
     Inr \<lparr>valid = False, errors = [requiredError ''N8N_HOST''], warnings = []\<rparr> \<and>
   fst (validateConfig [] Map.empty) = Inr \<lparr>valid = True, errors = [], warnings = []\<rparr>"
proof -
  note vc = validateConfig_built(1)[OF cacheBuilt_empty]
  have a: "fst (validateConfig [(''N8N_HOST'', ''''), (''constructor'', ''x'')] Map.empty) =
     Inl JsTypeError"
    unfolding vc by (simp add: ordinaryKeys_def Object_keys_def ObjectPrototype_def)
  have b: "fst (validateConfig [(''constructor'', ''x'')] Map.empty) = Inl JsTypeError"
    unfolding vc by (simp add: ordinaryKeys_def Object_keys_def ObjectPrototype_def)
  have c: "fst (validateConfig [(''N8N_HOST'', '''')] Map.empty) =
     Inr \<lparr>valid = False, errors = [requiredError ''N8N_HOST''], warnings = []\<rparr>"
    unfolding vc
    by (simp add: ordinaryKeys_def Object_keys_def ObjectPrototype_def configErrors_def
        getProp_def validateFieldErrors_def fieldRules_def
        REQUIRED_FIELDS_def NUMERIC_FIELDS_def BOOLEAN_FIELDS_def ENUM_VALUES_def
        POSTGRES_REQUIRED_FIELDS_def REDIS_REQUIRED_FIELDS_def rule_defs
        requiredError_def ruleError_def)
  have d: "fst (validateConfig [] Map.empty) = Inr \<lparr>valid = True, errors = [], warnings = []\<rparr>"
    unfolding vc
    by (simp add: ordinaryKeys_def Object_keys_def configErrors_def getProp_def)
  from a b c d show ?thesis by (intro conjI)
qed

section \<open>Diff engine\<close>

lemma newSet_foldl:
  "set (foldl (\<lambda>s x. if x \<in> set s then s else s @ [x]) acc xs) = set acc \<union> set xs \<and>
   (distinct acc \<longrightarrow> distinct (foldl (\<lambda>s x. if x \<in> set s then s else s @ [x]) acc xs))"
  by (induction xs arbitrary: acc) auto

lemma set_newSet [simp]: "set (newSet xs) = set xs"
  using newSet_foldl[of "[]" xs] by (simp add: newSet_def)

lemma distinct_newSet [simp]: "distinct (newSet xs)"
  using newSet_foldl[of "[]" xs] by (simp add: newSet_def)

lemma diffLoop_eq:
  "diffLoop fs config defaults acc =
     acc @ map (diffEntry config defaults)
             (filter (\<lambda>f. readOrEmpty config f \<noteq> readOrEmpty defaults f) fs)"
  by (induction fs arbitrary: acc) (simp_all add: diffEntry_def Let_def)

lemma set_insertSorted [simp]: "set (insertSorted cmp x ys) = insert x (set ys)"
  by (induction ys) auto

lemma length_insertSorted [simp]: "length (insertSorted cmp x ys) = Suc (length ys)"
  by (induction ys) auto

lemma distinct_map_insertSorted:
  "distinct (map f (insertSorted cmp x ys)) \<longleftrightarrow> f x \<notin> f ` set ys \<and> distinct (map f ys)"
  by (induction ys) auto

lemma set_sortBy [simp]: "set (sortBy cmp xs) = set xs"
  by (induction xs) (simp_all add: sortBy_def)

lemma length_sortBy [simp]: "length (sortBy cmp xs) = length xs"
  by (induction xs) (simp_all add: sortBy_def)

lemma distinct_map_sortBy [simp]:
  "distinct (map f (sortBy cmp xs)) \<longleftrightarrow> distinct (map f xs)"
proof (induction xs)
  case Nil
  then show ?case by (simp add: sortBy_def)
next
  case (Cons x xs)
  have "sortBy cmp (x # xs) = insertSorted cmp x (sortBy cmp xs)" by (simp add: sortBy_def)
  then show ?case using Cons by (simp add: distinct_map_insertSorted)
qed

lemma sorted_insertSorted:
  assumes "sorted_wrt (\<lambda>a b. cmp a b \<le> 0) ys"
    and tot: "\<And>b. b \<in> set ys \<Longrightarrow> cmp x b \<le> 0 \<or> cmp b x \<le> 0"
    and tr: "\<And>b c. b \<in> set ys \<Longrightarrow> c \<in> set ys \<Longrightarrow> cmp x b \<le> 0 \<Longrightarrow> cmp b c \<le> 0 \<Longrightarrow>
               cmp x c \<le> 0"
  shows "sorted_wrt (\<lambda>a b. cmp a b \<le> 0) (insertSorted cmp x ys)"
  using assms
proof (induction ys)
  case Nil
  then show ?case by simp
next
  case (Cons y ys)
  from Cons.prems(1) have ys: "sorted_wrt (\<lambda>a b. cmp a b \<le> 0) ys"
    and yz: "\<And>z. z \<in> set ys \<Longrightarrow> cmp y z \<le> 0" by simp_all
  show ?case
  proof (cases "cmp x y \<le> 0")
    case True
    have "\<And>z. z \<in> set ys \<Longrightarrow> cmp x z \<le> 0"
    proof -
      fix z assume z: "z \<in> set ys"
      show "cmp x z \<le> 0"
        by (rule Cons.prems(3)[of y z]) (simp_all add: z True yz)
    qed
    with True ys yz show ?thesis by simp
  next
    case False
    have "cmp x y \<le> 0 \<or> cmp y x \<le> 0" by (rule Cons.prems(2)) simp
    with False have yx: "cmp y x \<le> 0" by simp
    have "sorted_wrt (\<lambda>a b. cmp a b \<le> 0) (insertSorted cmp x ys)"
    proof (rule Cons.IH[OF ys])
      fix b assume "b \<in> set ys"
      then show "cmp x b \<le> 0 \<or> cmp b x \<le> 0" by (intro Cons.prems(2)) simp
    next
      fix b c assume "b \<in> set ys" "c \<in> set ys" "cmp x b \<le> 0" "cmp b c \<le> 0"
      then show "cmp x c \<le> 0" by (intro Cons.prems(3)[of b c]) simp_all
    qed
    with False yx yz show ?thesis by simp
  qed
qed

lemma sorted_sortBy:
  assumes tot: "\<And>a b. a \<in> set xs \<Longrightarrow> b \<in> set xs \<Longrightarrow> cmp a b \<le> 0 \<or> cmp b a \<le> 0"
    and tr: "\<And>a b c. a \<in> set xs \<Longrightarrow> b \<in> set xs \<Longrightarrow> c \<in> set xs \<Longrightarrow>
               cmp a b \<le> 0 \<Longrightarrow> cmp b c \<le> 0 \<Longrightarrow> cmp a c \<le> 0"
  shows "sorted_wrt (\<lambda>a b. cmp a b \<le> 0) (sortBy cmp xs)"
  using assms
proof (induction xs)
  case Nil
  show ?case by (simp add: sortBy_def)
next
  case (Cons x xs)
  have eq: "sortBy cmp (x # xs) = insertSorted cmp x (sortBy cmp xs)" by (simp add: sortBy_def)
  have s: "sorted_wrt (\<lambda>a b. cmp a b \<le> 0) (sortBy cmp xs)"
  proof (rule Cons.IH)
    fix a b assume "a \<in> set xs" "b \<in> set xs"
    then show "cmp a b \<le> 0 \<or> cmp b a \<le> 0" by (intro Cons.prems(1)) simp_all
  next
    fix a b c assume "a \<in> set xs" "b \<in> set xs" "c \<in> set xs" "cmp a b \<le> 0" "cmp b c \<le> 0"
    then show "cmp a c \<le> 0" by (intro Cons.prems(2)[of a b c]) simp_all
  qed
  show ?case
    unfolding eq
  proof (rule sorted_insertSorted[OF s])
    fix b assume "b \<in> set (sortBy cmp xs)"
    then show "cmp x b \<le> 0 \<or> cmp b x \<le> 0" by (intro Cons.prems(1)) simp_all
  next
    fix b c assume "b \<in> set (sortBy cmp xs)" "c \<in> set (sortBy cmp xs)" "cmp x b \<le> 0" "cmp b c \<le> 0"
    then show "cmp x c \<le> 0" by (intro Cons.prems(2)[of x b c]) simp_all
  qed
qed

lemma getFieldCategory_in_mem:
  "getFieldCategory_in cs f \<in> insert ''unknown'' (fst ` set cs)"
  by (induction cs f rule: getFieldCategory_in.induct) (auto split: option.splits)

lemma getFieldCategory_mem: "getFieldCategory f \<in> set categoryIds"
  using getFieldCategory_in_mem[of categories f]
  by (simp add: getFieldCategory_def categoryIds_def)

lemma compareEntries_total:
  assumes "consistentComparator lc"
  shows "compareEntries lc a b \<le> 0 \<or> compareEntries lc b a \<le> 0"
proof -
  from assms have "\<And>x y. lc x y \<le> 0 \<or> lc y x \<le> 0"
    unfolding consistentComparator_def by (metis linorder_not_less order_less_imp_le)
  then show ?thesis by (simp add: compareEntries_def)
qed

lemma compareEntries_trans:
  assumes cc: "consistentComparator lc" and sep: "separatesCategories lc"
    and cats: "category a \<in> set categoryIds" "category b \<in> set categoryIds"
      "category c \<in> set categoryIds"
    and ab: "compareEntries lc a b \<le> 0" and bc: "compareEntries lc b c \<le> 0"
  shows "compareEntries lc a c \<le> 0"
proof -
  from cc have sym: "\<And>x y. (lc x y < 0) = (lc y x > 0)"
    and tr: "\<And>x y z. lc x y \<le> 0 \<Longrightarrow> lc y z \<le> 0 \<Longrightarrow> lc x z \<le> 0"
    unfolding consistentComparator_def by blast+
  from sep have ne: "\<And>x y. x \<in> set categoryIds \<Longrightarrow> y \<in> set categoryIds \<Longrightarrow> x \<noteq> y \<Longrightarrow> lc x y \<noteq> 0"
    unfolding separatesCategories_def by blast
  show ?thesis
  proof (cases "category a = category b")
    case True
    note ab_same = True
    show ?thesis
    proof (cases "category b = category c")
      case True
      with ab_same ab bc tr show ?thesis by (auto simp: compareEntries_def)
    next
      case False
      with ab_same bc show ?thesis by (simp add: compareEntries_def)
    qed
  next
    case False
    note ab_diff = False
    with ab have l1: "lc (category a) (category b) \<le> 0" by (simp add: compareEntries_def)
    show ?thesis
    proof (cases "category b = category c")
      case True
      with ab_diff l1 show ?thesis by (simp add: compareEntries_def)
    next
      case False
      with bc have l2: "lc (category b) (category c) \<le> 0" by (simp add: compareEntries_def)
      show ?thesis
      proof (cases "category a = category c")
        case True
        from l1 ne[OF cats(1,2) ab_diff] have "lc (category a) (category b) < 0" by simp
        then have "lc (category b) (category a) > 0" using sym by simp
        with l2 True show ?thesis by simp
      next
        case False
        with tr[OF l1 l2] show ?thesis by (simp add: compareEntries_def)
      qed
    qed
  qed
qed

lemma compareEntries_lex:
  assumes "separatesCategories lc"
    and "category a \<in> set categoryIds" "category b \<in> set categoryIds"
    and "compareEntries lc a b \<le> 0"
  shows "lc (category a) (category b) < 0 \<or>
         (category a = category b \<and> lc (dfield a) (dfield b) \<le> 0)"
proof (cases "category a = category b")
  case True
  with assms(4) show ?thesis by (simp add: compareEntries_def)
next
  case False
  with assms(1-3) have "lc (category a) (category b) \<noteq> 0"
    unfolding separatesCategories_def by blast
  with False assms(4) show ?thesis by (simp add: compareEntries_def)
qed

lemma category_diffEntry [simp]: "category (diffEntry config defaults f) = getFieldCategory f"
  by (simp add: diffEntry_def)

lemma dfield_diffEntry [simp]: "dfield (diffEntry config defaults f) = f"
  by (simp add: diffEntry_def)

lemma entries_computeDiff:
  "entries (computeDiff lc config defaults) =
     sortBy (compareEntries lc)
       (map (diffEntry config defaults)
          (filter (\<lambda>f. readOrEmpty config f \<noteq> readOrEmpty defaults f)
             (newSet (Object_keys config @ Object_keys defaults))))"
  by (simp add: computeDiff_def Let_def diffLoop_eq)

lemma set_entries_computeDiff:
  "set (entries (computeDiff lc config defaults)) =
     diffEntry config defaults `
       {k \<in> set (Object_keys config) \<union> set (Object_keys defaults).
          readOrEmpty config k \<noteq> readOrEmpty defaults k}"
  by (auto simp: entries_computeDiff)

lemma sorted_entries_computeDiff:
  assumes cc: "consistentComparator lc" and sep: "separatesCategories lc"
  shows "sorted_wrt
           (\<lambda>a b. lc (category a) (category b) < 0 \<or>
                  (category a = category b \<and> lc (dfield a) (dfield b) \<le> 0))
           (entries (computeDiff lc config defaults))"
proof -
  let ?xs = "map (diffEntry config defaults)
          (filter (\<lambda>f. readOrEmpty config f \<noteq> readOrEmpty defaults f)
             (newSet (Object_keys config @ Object_keys defaults)))"
  have cat: "\<forall>e\<in>set ?xs. category e \<in> set categoryIds"
    by (auto simp: getFieldCategory_mem)
  have "sorted_wrt (\<lambda>a b. compareEntries lc a b \<le> 0) (sortBy (compareEntries lc) ?xs)"
  proof (rule sorted_sortBy)
    fix a b
    show "compareEntries lc a b \<le> 0 \<or> compareEntries lc b a \<le> 0"
      by (rule compareEntries_total[OF cc])
  next
    fix a b c
    assume "a \<in> set ?xs" "b \<in> set ?xs" "c \<in> set ?xs"
      and "compareEntries lc a b \<le> 0" "compareEntries lc b c \<le> 0"
    then show "compareEntries lc a c \<le> 0"
      using compareEntries_trans[OF cc sep, of a b c] cat by blast
  qed
  then have "sorted_wrt
           (\<lambda>a b. lc (category a) (category b) < 0 \<or>
                  (category a = category b \<and> lc (dfield a) (dfield b) \<le> 0))
           (sortBy (compareEntries lc) ?xs)"
  proof (rule sorted_wrt_mono_rel[rotated])
    fix a b
    assume "a \<in> set (sortBy (compareEntries lc) ?xs)" "b \<in> set (sortBy (compareEntries lc) ?xs)"
      and "compareEntries lc a b \<le> 0"
    then show "lc (category a) (category b) < 0 \<or>
                  (category a = category b \<and> lc (dfield a) (dfield b) \<le> 0)"
      using compareEntries_lex[OF sep, of a b] cat by simp
  qed
  then show ?thesis by (simp only: entries_computeDiff)
qed

lemma dtype_diffEntry:
  "dtype (diffEntry config defaults f) =
     (if readOrEmpty defaults f = Str '''' \<and> readOrEmpty config f \<noteq> Str '''' then Added
      else if readOrEmpty config f = Str '''' \<and> readOrEmpty defaults f \<noteq> Str '''' then Removed
      else Modified)"
  by (simp add: diffEntry_def)

lemma values_diffEntry [simp]:
  "currentValue (diffEntry config defaults f) = readOrEmpty config f"
  "defaultValue (diffEntry config defaults f) = readOrEmpty defaults f"
  by (simp_all add: diffEntry_def)

lemma distinct_fields_computeDiff:
  "distinct (map dfield (entries (computeDiff lc config defaults)))"
proof -
  have "map dfield (map (diffEntry config defaults) ks) = ks" for ks
    by (induction ks) simp_all
  then show ?thesis
    by (simp add: entries_computeDiff)
qed

lemma fields_computeDiff:
  "set (map dfield (entries (computeDiff lc config defaults))) =
     {k \<in> set (Object_keys config) \<union> set (Object_keys defaults).
        readOrEmpty config k \<noteq> readOrEmpty defaults k}"
  by (auto simp: set_entries_computeDiff image_image)

lemma entry_computeDiff:
  assumes "e \<in> set (entries (computeDiff lc config defaults))"
  shows "e = diffEntry config defaults (dfield e) \<and>
         readOrEmpty config (dfield e) \<noteq> readOrEmpty defaults (dfield e)"
  using assms by (auto simp: set_entries_computeDiff)

lemma dtype_cases:
  fixes c d :: jsval
  assumes "c \<noteq> d"
  shows "((if d = Str '''' \<and> c \<noteq> Str '''' then Added else if c = Str '''' \<and> d \<noteq> Str '''' then Removed else Modified) = Added
            \<longleftrightarrow> d = Str '''' \<and> c \<noteq> Str '''') \<and>
         ((if d = Str '''' \<and> c \<noteq> Str '''' then Added else if c = Str '''' \<and> d \<noteq> Str '''' then Removed else Modified) = Removed
            \<longleftrightarrow> c = Str '''' \<and> d \<noteq> Str '''') \<and>
         ((if d = Str '''' \<and> c \<noteq> Str '''' then Added else if c = Str '''' \<and> d \<noteq> Str '''' then Removed else Modified) = Modified
            \<longleftrightarrow> c \<noteq> Str '''' \<and> d \<noteq> Str '''' \<and> c \<noteq> d)"
proof (cases "d = Str ''''")
  case True
  with assms have "c \<noteq> Str ''''" by auto
  with True show ?thesis by simp
next
  case False
  then show ?thesis using assms by (cases "c = Str ''''") simp_all
qed

lemma diffEntry_props:
  assumes "readOrEmpty config k \<noteq> readOrEmpty defaults k"
  shows "currentValue (diffEntry config defaults k) = readOrEmpty config (dfield (diffEntry config defaults k)) \<and>
         defaultValue (diffEntry config defaults k) = readOrEmpty defaults (dfield (diffEntry config defaults k)) \<and>
         category (diffEntry config defaults k) = getFieldCategory (dfield (diffEntry config defaults k)) \<and>
         (dtype (diffEntry config defaults k) = Added \<longleftrightarrow>
            defaultValue (diffEntry config defaults k) = Str '''' \<and>
            currentValue (diffEntry config defaults k) \<noteq> Str '''') \<and>
         (dtype (diffEntry config defaults k) = Removed \<longleftrightarrow>
            currentValue (diffEntry config defaults k) = Str '''' \<and>
            defaultValue (diffEntry config defaults k) \<noteq> Str '''') \<and>
         (dtype (diffEntry config defaults k) = Modified \<longleftrightarrow>
            currentValue (diffEntry config defaults k) \<noteq> Str '''' \<and>
            defaultValue (diffEntry config defaults k) \<noteq> Str '''' \<and>
            currentValue (diffEntry config defaults k) \<noteq> defaultValue (diffEntry config defaults k))"
  using dtype_cases[OF assms]
  by (simp only: dtype_diffEntry values_diffEntry dfield_diffEntry category_diffEntry simp_thms)

text \<open>
  The diff has exactly one entry for each key of the union of the two key sets at which
  the two reads differ, and none for the other keys; each entry carries the two values
  read, the category of its field and the type (added: default empty, current not;
  removed: current empty, default not; modified otherwise); the entries ascend by
  category and then by field in the order of \<^verbatim>\<open>localeCompare\<close>; \<^verbatim>\<open>totalChanges\<close> is
  their number and \<^verbatim>\<open>hasChanges\<close> says that it is positive.
\<close>

lemma computeDiff_entries_by_reads:
  assumes "consistentComparator lc" and "separatesCategories lc"
  shows "distinct (map dfield (entries (computeDiff lc config defaults))) \<and>
         set (map dfield (entries (computeDiff lc config defaults))) =
           {k \<in> set (Object_keys config) \<union> set (Object_keys defaults).
              readOrEmpty config k \<noteq> readOrEmpty defaults k} \<and>
         (\<forall>e\<in>set (entries (computeDiff lc config defaults)).
            currentValue e = readOrEmpty config (dfield e) \<and>
            defaultValue e = readOrEmpty defaults (dfield e) \<and>
            category e = getFieldCategory (dfield e) \<and>
            (dtype e = Added \<longleftrightarrow> defaultValue e = Str '''' \<and> currentValue e \<noteq> Str '''') \<and>
            (dtype e = Removed \<longleftrightarrow> currentValue e = Str '''' \<and> defaultValue e \<noteq> Str '''') \<and>
            (dtype e = Modified \<longleftrightarrow>
               currentValue e \<noteq> Str '''' \<and> defaultValue e \<noteq> Str '''' \<and>
               currentValue e \<noteq> defaultValue e)) \<and>
         sorted_wrt
           (\<lambda>a b. lc (category a) (category b) < 0 \<or>
                  (category a = category b \<and> lc (dfield a) (dfield b) \<le> 0))
           (entries (computeDiff lc config defaults)) \<and>
         totalChanges (computeDiff lc config defaults) =
           length (entries (computeDiff lc config defaults)) \<and>
         hasChanges (computeDiff lc config defaults) =
           (totalChanges (computeDiff lc config defaults) > 0)"
proof -
  have each: "\<forall>e\<in>set (entries (computeDiff lc config defaults)).
            currentValue e = readOrEmpty config (dfield e) \<and>
            defaultValue e = readOrEmpty defaults (dfield e) \<and>
            category e = getFieldCategory (dfield e) \<and>
            (dtype e = Added \<longleftrightarrow> defaultValue e = Str '''' \<and> currentValue e \<noteq> Str '''') \<and>
            (dtype e = Removed \<longleftrightarrow> currentValue e = Str '''' \<and> defaultValue e \<noteq> Str '''') \<and>
            (dtype e = Modified \<longleftrightarrow>
               currentValue e \<noteq> Str '''' \<and> defaultValue e \<noteq> Str '''' \<and>
               currentValue e \<noteq> defaultValue e)"
  proof
    fix e
    assume "e \<in> set (entries (computeDiff lc config defaults))"
    then obtain k where
      e: "e = diffEntry config defaults k"
      and ne: "readOrEmpty config k \<noteq> readOrEmpty defaults k"
      unfolding set_entries_computeDiff by blast
    show "currentValue e = readOrEmpty config (dfield e) \<and>
            defaultValue e = readOrEmpty defaults (dfield e) \<and>
            category e = getFieldCategory (dfield e) \<and>
            (dtype e = Added \<longleftrightarrow> defaultValue e = Str '''' \<and> currentValue e \<noteq> Str '''') \<and>
            (dtype e = Removed \<longleftrightarrow> currentValue e = Str '''' \<and> defaultValue e \<noteq> Str '''') \<and>
            (dtype e = Modified \<longleftrightarrow>
               currentValue e \<noteq> Str '''' \<and> defaultValue e \<noteq> Str '''' \<and>
               currentValue e \<noteq> defaultValue e)"
      unfolding e by (rule diffEntry_props[OF ne])
  qed
  have total: "totalChanges (computeDiff lc config defaults) =
           length (entries (computeDiff lc config defaults))"
    by (simp add: computeDiff_def Let_def)
  have has: "hasChanges (computeDiff lc config defaults) =
           (totalChanges (computeDiff lc config defaults) > 0)"
    by (simp add: computeDiff_def Let_def del: length_greater_0_conv)
  show ?thesis
    by (intro conjI distinct_fields_computeDiff fields_computeDiff each
        sorted_entries_computeDiff[OF assms] total has)
qed

lemma codeUnitCompare_sym: "(codeUnitCompare a b < 0) = (codeUnitCompare b a > 0)"
  by (induction a b rule: codeUnitCompare.induct) auto

lemma codeUnitCompare_le_cases:
  "codeUnitCompare (x # xs) (y # ys) \<le> 0 \<longleftrightarrow>
     (of_char x :: nat) < of_char y \<or>
     ((of_char x :: nat) = of_char y \<and> codeUnitCompare xs ys \<le> 0)"
  by auto

lemma codeUnitCompare_trans:
  "codeUnitCompare a b \<le> 0 \<Longrightarrow> codeUnitCompare b c \<le> 0 \<Longrightarrow> codeUnitCompare a c \<le> 0"
proof (induction a arbitrary: b c)
  case Nil
  then show ?case by (cases c) simp_all
next
  case (Cons x xs)
  from Cons.prems(1) obtain y ys where b: "b = y # ys" by (cases b) auto
  from Cons.prems(2) b obtain z zs where c: "c = z # zs" by (cases c) auto
  from Cons.prems have
    xy: "(of_char x :: nat) < of_char y \<or>
         ((of_char x :: nat) = of_char y \<and> codeUnitCompare xs ys \<le> 0)"
    and yz: "(of_char y :: nat) < of_char z \<or>
         ((of_char y :: nat) = of_char z \<and> codeUnitCompare ys zs \<le> 0)"
    unfolding b c codeUnitCompare_le_cases by blast+
  have "(of_char x :: nat) < of_char z \<or>
         ((of_char x :: nat) = of_char z \<and> codeUnitCompare xs zs \<le> 0)"
    using xy yz Cons.IH[of ys zs] by auto
  then show ?case unfolding c codeUnitCompare_le_cases .
qed

lemma codeUnitCompare_zero: "codeUnitCompare a b = 0 \<Longrightarrow> a = b"
  by (induction a b rule: codeUnitCompare.induct) (auto split: if_splits)

lemma consistent_codeUnitCompare: "consistentComparator codeUnitCompare"
  unfolding consistentComparator_def
  using codeUnitCompare_sym codeUnitCompare_trans by blast

lemma separates_codeUnitCompare: "separatesCategories codeUnitCompare"
  unfolding separatesCategories_def using codeUnitCompare_zero by blast

lemma readOrEmpty_ordinary:
  assumes "k \<notin> set ObjectPrototype"
  shows "readOrEmpty ob k =
           (case getProp ob k of None \<Rightarrow> Str '''' | Some Undefined \<Rightarrow> Str '''' | Some v \<Rightarrow> v)"
  using assms
  by (simp add: readOrEmpty_def readProp_def lookup_def getProp_def split: option.split jsval.split)

text \<open>
  Claim C2. A key that one of the two maps lacks is to read as the empty string there, so
  for the empty configuration and the defaults \<^verbatim>\<open>{constructor: "x"}\<close> the key is to give
  an entry of type removed with the empty string as its current value. The code reads the
  \<^verbatim>\<open>constructor\<close> that the empty configuration inherits: the entry is of type modified and
  its current value is that function.
\<close>

theorem computeDiff_inherited_key:
  "computeDiff lc [] [(''constructor'', Str ''x'')] =
     \<lparr>entries = [\<lparr>dfield = ''constructor'', category = ''unknown'', dtype = Modified,
                   currentValue = PrototypeMember ''constructor'',
                   defaultValue = Str ''x''\<rparr>],
      totalChanges = 1, hasChanges = True\<rparr>"
proof -
  have c: "getFieldCategory ''constructor'' = ''unknown''"
    by (simp add: getFieldCategory_def categories_def)
  have r: "readOrEmpty [] ''constructor'' = PrototypeMember ''constructor''"
    "readOrEmpty [(''constructor'', Str ''x'')] ''constructor'' = Str ''x''"
    by (simp_all add: readOrEmpty_def readProp_def lookup_def ObjectPrototype_def)
  show ?thesis
    by (simp add: computeDiff_def Object_keys_def newSet_def r c sortBy_def)
qed

text \<open>
  Claim C9. The diff of a configuration against itself has no entries, no changes and
  \<^verbatim>\<open>hasChanges\<close> false.
\<close>

theorem computeDiff_self:
  "computeDiff lc config config = \<lparr>entries = [], totalChanges = 0, hasChanges = False\<rparr>"
proof -
  have "diffLoop ks config config [] = []" for ks
    by (simp add: diffLoop_eq)
  then show ?thesis
    by (simp add: computeDiff_def Let_def sortBy_def)
qed

theorem computeDiff_self_witness:
  "computeDiff codeUnitCompare [(''N8N_PORT'', Str ''9000''), (''FOO'', Str '''')]
     [(''N8N_PORT'', Str ''9000''), (''FOO'', Str '''')] =
   \<lparr>entries = [], totalChanges = 0, hasChanges = False\<rparr>"
  by (rule computeDiff_self)

section \<open>Objects and the store\<close>

lemma getProp_None_iff: "getProp ob k = None \<longleftrightarrow> k \<notin> set (Object_keys ob)"
  by (simp add: getProp_def Object_keys_def map_of_eq_None_iff)

lemma map_of_update_other:
  "x \<noteq> k \<Longrightarrow>
   map_of (map (\<lambda>(k', v'). if k' = k then (k', v) else (k', v')) ob) x = map_of ob x"
proof (induction ob)
  case Nil
  show ?case by simp
next
  case (Cons a ob)
  obtain k' v' where a: "a = (k', v')" by (cases a)
  show ?case using Cons by (cases "k' = k") (simp_all add: a)
qed

lemma map_of_update_same:
  "k \<in> fst ` set ob \<Longrightarrow>
   map_of (map (\<lambda>(k', v'). if k' = k then (k', v) else (k', v')) ob) k = Some v"
proof (induction ob)
  case Nil
  then show ?case by simp
next
  case (Cons a ob)
  obtain k' v' where a: "a = (k', v')" by (cases a)
  show ?case
  proof (cases "k' = k")
    case True
    then show ?thesis by (simp add: a)
  next
    case False
    with Cons.prems a have "k \<in> fst ` set ob" by auto
    with Cons.IH False show ?thesis by (simp add: a)
  qed
qed

lemma fst_update_existing:
  "fst (case p of (k', v') \<Rightarrow> if k' = k then (k', v) else (k', v')) = fst p"
  by (cases p) simp

lemma keys_update_existing:
  "map (fst \<circ> (\<lambda>(k', v'). if k' = k then (k', v) else (k', v'))) ob = map fst ob"
  by (simp add: comp_def fst_update_existing)

lemma map_of_insertIndexed:
  "k \<notin> fst ` set ob \<Longrightarrow> map_of (insertIndexed k v ob) x = (if x = k then Some v else map_of ob x)"
  by (induction ob) auto

lemma keys_insertIndexed:
  "fst ` set (insertIndexed k v ob) = insert k (fst ` set ob)"
  by (induction k v ob rule: insertIndexed.induct) auto

lemma distinct_insertIndexed:
  "k \<notin> fst ` set ob \<Longrightarrow> distinct (map fst ob) \<Longrightarrow> distinct (map fst (insertIndexed k v ob))"
proof (induction ob)
  case Nil
  then show ?case by simp
next
  case (Cons a ob)
  obtain k' v' where a: "a = (k', v')" by (cases a)
  from Cons.prems have k: "k \<noteq> k'" "k \<notin> fst ` set ob" and d: "k' \<notin> fst ` set ob" "distinct (map fst ob)"
    by (auto simp: a)
  have "k' \<notin> fst ` set (insertIndexed k v ob)"
    using k d by (simp only: keys_insertIndexed) auto
  with Cons.IH[OF k(2) d(2)] k d show ?case by (auto simp: a)
qed

lemma getProp_setProp:
  "getProp (setProp ob k v) x = (if x = k then Some v else getProp ob x)"
proof (cases "k \<in> set (map fst ob)")
  case True
  then have "k \<in> fst ` set ob" by simp
  from map_of_update_same[OF this, of v] True show ?thesis
    by (cases "x = k") (simp_all add: getProp_def setProp_def map_of_update_other)
next
  case False
  then have nk: "k \<notin> fst ` set ob" by simp
  show ?thesis
  proof (cases "isArrayIndex k")
    case True
    with False show ?thesis
      by (simp add: getProp_def setProp_def map_of_insertIndexed[OF nk])
  next
    case ni: False
    have "map_of ob k = None" using nk by (simp add: map_of_eq_None_iff)
    with False ni show ?thesis
      by (auto simp: getProp_def setProp_def map_add_def split: option.splits)
  qed
qed

lemma keys_setProp:
  "set (Object_keys (setProp ob k v)) = insert k (set (Object_keys ob))"
proof (cases "k \<in> set (map fst ob)")
  case True
  then show ?thesis
    by (auto simp: Object_keys_def setProp_def keys_update_existing)
next
  case False
  then show ?thesis
    by (simp add: Object_keys_def setProp_def keys_insertIndexed)
qed

lemma distinct_setProp:
  assumes "distinct (Object_keys ob)"
  shows "distinct (Object_keys (setProp ob k v))"
proof (cases "k \<in> set (map fst ob)")
  case True
  then show ?thesis
    using assms by (simp add: Object_keys_def setProp_def keys_update_existing)
next
  case False
  then have "k \<notin> fst ` set ob" by simp
  from distinct_insertIndexed[OF this, of v] assms False show ?thesis
    by (simp add: Object_keys_def setProp_def)
qed

lemma getProp_deleteProp:
  "getProp (deleteProp ob k) x = (if x = k then None else getProp ob x)"
  by (induction ob) (auto simp: getProp_def deleteProp_def)

lemma keys_deleteProp:
  "set (Object_keys (deleteProp ob k)) = set (Object_keys ob) - {k}"
  by (auto simp: Object_keys_def deleteProp_def)

lemma spread_foldl:
  "distinct (map fst ob) \<Longrightarrow>
   getProp (foldl (\<lambda>acc (k, v). setProp acc k v) acc ob) x =
     (case map_of ob x of Some v \<Rightarrow> Some v | None \<Rightarrow> getProp acc x)"
proof (induction ob arbitrary: acc)
  case Nil
  then show ?case by simp
next
  case (Cons a ob)
  obtain k v where a: "a = (k, v)" by (cases a)
  from Cons.prems a have d: "distinct (map fst ob)" and nk: "map_of ob k = None"
    by (auto simp: map_of_eq_None_iff)
  show ?case
    using Cons.IH[OF d, of "setProp acc k v"] nk
    by (auto simp: a getProp_setProp split: option.splits)
qed

lemma spread_foldl_keys:
  "set (Object_keys (foldl (\<lambda>acc (k, v). setProp acc k v) acc ob)) =
     set (Object_keys acc) \<union> fst ` set ob \<and>
   (distinct (Object_keys acc) \<longrightarrow>
      distinct (Object_keys (foldl (\<lambda>acc (k, v). setProp acc k v) acc ob)))"
proof (induction ob arbitrary: acc)
  case Nil
  then show ?case by simp
next
  case (Cons a ob)
  obtain k v where a: "a = (k, v)" by (cases a)
  show ?case
    using Cons.IH[of "setProp acc k v"]
    by (auto simp: a keys_setProp distinct_setProp)
qed

lemma getProp_spread:
  "distinct (Object_keys ob) \<Longrightarrow> getProp (spread ob) x = getProp ob x"
  using spread_foldl[of ob "[]" x]
  by (simp add: spread_def Object_keys_def getProp_def split: option.splits)

lemma keys_spread: "set (Object_keys (spread ob)) = set (Object_keys ob)"
  using spread_foldl_keys[of "[]" ob] by (simp add: spread_def Object_keys_def)

lemma distinct_spread: "distinct (Object_keys (spread ob))"
  using spread_foldl_keys[of "[]" ob] by (simp add: spread_def Object_keys_def)

text \<open>
  Claim C5. \<^verbatim>\<open>revertAll\<close> returns a fresh object with exactly the properties of
  \<open>defaults\<close>: the same keys with the same values, whatever \<open>config\<close> holds, so a key of
  \<open>config\<close> that \<open>defaults\<close> lacks is not in the result; the objects already in the store
  stay as they are.
\<close>

theorem revertAll_copies_defaults:
  assumes "defaults < length s" and "distinct (Object_keys (s ! defaults))"
  shows "(case revertAll config defaults s of
            (r, s') \<Rightarrow>
              r = length s \<and>
              (\<forall>a<length s. s' ! a = s ! a) \<and>
              (\<forall>k. getProp (s' ! r) k = getProp (s ! defaults) k) \<and>
              set (Object_keys (s' ! r)) = set (Object_keys (s ! defaults)) \<and>
              distinct (Object_keys (s' ! r)) \<and>
              (\<forall>k\<in>set (Object_keys (s ! config)).
                 k \<notin> set (Object_keys (s ! defaults)) \<longrightarrow>
                 k \<notin> set (Object_keys (s' ! r)) \<and> getProp (s' ! r) k = None))"
proof -
  have new: "(s @ [spread (s ! defaults)]) ! length s = spread (s ! defaults)" by simp
  have old: "\<forall>a<length s. (s @ [spread (s ! defaults)]) ! a = s ! a"
    by (simp add: nth_append)
  show ?thesis
    unfolding revertAll_def alloc_def prod.case new
    using old
    by (simp add: getProp_spread[OF assms(2)] keys_spread distinct_spread getProp_None_iff)
qed

theorem revertAll_copies_defaults_witness:
  "(0::nat) < length [[(''N8N_PORT'', ''5678'')], [(''N8N_PORT'', ''9000''), (''FOO'', ''x'')]] \<and>
   revertAll 1 0 [[(''N8N_PORT'', ''5678'')], [(''N8N_PORT'', ''9000''), (''FOO'', ''x'')]] =
     (2, [[(''N8N_PORT'', ''5678'')], [(''N8N_PORT'', ''9000''), (''FOO'', ''x'')],
          [(''N8N_PORT'', ''5678'')]]) \<and>
   getProp (snd (revertAll 1 0
       [[(''N8N_PORT'', ''5678'')], [(''N8N_PORT'', ''9000''), (''FOO'', ''x'')]]) ! 2) ''FOO'' = None"
proof -
  have l: "(0::nat) < length [[(''N8N_PORT'', ''5678'')], [(''N8N_PORT'', ''9000''), (''FOO'', ''x'')]]"
    by simp
  have d: "distinct (Object_keys
     ([[(''N8N_PORT'', ''5678'')], [(''N8N_PORT'', ''9000''), (''FOO'', ''x'')]] ! 0))"
    by (simp add: Object_keys_def)
  have ev: "revertAll 1 0 [[(''N8N_PORT'', ''5678'')], [(''N8N_PORT'', ''9000''), (''FOO'', ''x'')]] =
     (2, [[(''N8N_PORT'', ''5678'')], [(''N8N_PORT'', ''9000''), (''FOO'', ''x'')],
          [(''N8N_PORT'', ''5678'')]])"
    by (simp add: revertAll_def alloc_def spread_def setProp_def isArrayIndex_def isDigit_def)
  have "getProp (snd (revertAll 1 0
       [[(''N8N_PORT'', ''5678'')], [(''N8N_PORT'', ''9000''), (''FOO'', ''x'')]]) ! 2) ''FOO'' = None"
    using revertAll_copies_defaults[OF l d, of 1]
    unfolding ev by (simp add: Object_keys_def)
  with l ev show ?thesis by blast
qed

lemma ownNamed_insertIndexed:
  "ownNamed ob \<Longrightarrow> ownNamed [(k, v)] \<Longrightarrow> ownNamed (insertIndexed k v ob)"
  by (induction k v ob rule: insertIndexed.induct) (auto simp: ownNamed_def)

lemma ownNamed_setProp:
  assumes "ownNamed ob" and "ownNamed [(k, v)]"
  shows "ownNamed (setProp ob k v)"
proof -
  have "ownNamed (map (\<lambda>(k', v'). if k' = k then (k', v) else (k', v')) ob)"
    using assms by (auto simp: ownNamed_def list_all_iff split: if_splits)
  moreover have "ownNamed (ob @ [(k, v)])"
    using assms by (simp add: ownNamed_def)
  ultimately show ?thesis
    using ownNamed_insertIndexed[OF assms] by (simp add: setProp_def)
qed

lemma ownNamed_spread_foldl:
  "ownNamed acc \<Longrightarrow> ownNamed ob \<Longrightarrow>
   ownNamed (foldl (\<lambda>acc (k, v). setProp acc k v) acc ob)"
proof (induction ob arbitrary: acc)
  case Nil
  then show ?case by simp
next
  case (Cons a ob)
  obtain k v where a: "a = (k, v)" by (cases a)
  from Cons.prems(2) a have kv: "ownNamed [(k, v)]" and ob: "ownNamed ob"
    by (simp_all add: ownNamed_def)
  from Cons.IH[OF ownNamed_setProp[OF Cons.prems(1) kv] ob] show ?case
    by (simp add: a)
qed

lemma ownNamed_spread: "ownNamed ob \<Longrightarrow> ownNamed (spread ob)"
  using ownNamed_spread_foldl[of "[]" ob] by (simp add: spread_def ownNamed_def)

lemma ownNamed_readProp:
  assumes "ownNamed ob"
  shows "ownNamed [(k, readProp ob k)]"
proof (cases "map_of ob k")
  case None
  then show ?thesis by (simp add: readProp_def lookup_def ownNamed_def)
next
  case (Some v)
  then have "(k, v) \<in> set ob" by (rule map_of_SomeD)
  with assms have "case v of PrototypeMember member \<Rightarrow> member = k | _ \<Rightarrow> True"
    by (auto simp: ownNamed_def list_all_iff)
  with Some show ?thesis by (simp add: readProp_def lookup_def ownNamed_def)
qed

text \<open>
  The objects that \<^verbatim>\<open>revertField\<close> builds hold an inherited member only under its own
  name, when the objects it is given do; the value it assigns to \<^verbatim>\<open>__proto__\<close> is then
  never a function.
\<close>

lemma revertField_ownNamed:
  assumes "config < length s" and "defaults < length s"
    and "ownNamed (s ! config)" and "ownNamed (s ! defaults)"
  shows "ownNamed (snd (revertField fld config defaults s) ! fst (revertField fld config defaults s))"
    and "fld = ''__proto__'' \<longrightarrow>
           readProp (s ! defaults) fld \<in> {Undefined, PrototypeMember ''__proto__''} \<union> range Str"
proof -
  let ?copy = "spread (s ! config)"
  let ?s1 = "s @ [?copy]"
  have d1: "?s1 ! defaults = s ! defaults" using assms(2) by (simp add: nth_append)
  have c: "ownNamed ?copy" by (rule ownNamed_spread[OF assms(3)])
  note v = ownNamed_readProp[OF assms(4), of fld]
  have a: "ownNamed (assign ?copy fld (readProp (s ! defaults) fld))"
    using c ownNamed_setProp[OF c v] by (simp add: assign_def)
  have b: "ownNamed (deleteProp ?copy fld)"
    using c by (auto simp: ownNamed_def deleteProp_def list_all_iff)
  show "ownNamed (snd (revertField fld config defaults s) ! fst (revertField fld config defaults s))"
    using a b by (simp add: revertField_def alloc_def d1)
  show "fld = ''__proto__'' \<longrightarrow>
           readProp (s ! defaults) fld \<in> {Undefined, PrototypeMember ''__proto__''} \<union> range Str"
    using v by (cases "readProp (s ! defaults) fld") (auto simp: ownNamed_def)
qed

lemma readOrEmpty_cong: "getProp a k = getProp b k \<Longrightarrow> readOrEmpty a k = readOrEmpty b k"
  by (simp add: readOrEmpty_def readProp_def lookup_def getProp_def)

lemma hasProperty_ordinary:
  "k \<notin> set ObjectPrototype \<Longrightarrow> hasProperty ob k \<longleftrightarrow> getProp ob k \<noteq> None"
  by (simp add: hasProperty_def lookup_def getProp_def split: option.split)

lemma readProp_own: "getProp ob k = Some v \<Longrightarrow> readProp ob k = v"
  by (simp add: readProp_def lookup_def getProp_def)

lemma assign_ordinary: "k \<notin> set ObjectPrototype \<Longrightarrow> assign ob k v = setProp ob k v"
  by (auto simp: assign_def ObjectPrototype_def)

text \<open>
  For a field whose name is no member of \<^verbatim>\<open>Object.prototype\<close>, \<^verbatim>\<open>revertField\<close> returns a
  fresh object in which the field has the value of \<open>defaults\<close> when \<open>defaults\<close> has that
  key and is absent when it has not, and every other key reads as in \<open>config\<close>; the
  objects already in the store, \<open>config\<close> among them, stay as they are; the diff of the
  result against \<open>defaults\<close> has no entry for the field.
\<close>

lemma revertField_ordinary:
  assumes "config < length s" and "defaults < length s"
    and "distinct (Object_keys (s ! config))" and "fld \<notin> set ObjectPrototype"
  shows "(case revertField fld config defaults s of
            (r, s') \<Rightarrow>
              r = length s \<and>
              (\<forall>a<length s. s' ! a = s ! a) \<and>
              (case getProp (s ! defaults) fld of
                 Some v \<Rightarrow> getProp (s' ! r) fld = Some v
               | None \<Rightarrow> fld \<notin> set (Object_keys (s' ! r))) \<and>
              (\<forall>k. k \<noteq> fld \<longrightarrow> getProp (s' ! r) k = getProp (s ! config) k) \<and>
              distinct (Object_keys (s' ! r)) \<and>
              fld \<notin> set (map dfield (entries (computeDiff lc (s' ! r) (s ! defaults)))))"
proof -
  let ?copy = "spread (s ! config)"
  let ?s1 = "s @ [?copy]"
  have d1: "?s1 ! defaults = s ! defaults" using assms(2) by (simp add: nth_append)
  have n1: "?s1 ! length s = ?copy" by simp
  have old: "\<And>ob. \<forall>a<length s. (?s1[length s := ob]) ! a = s ! a"
    by (simp add: nth_append)
  have new: "\<And>ob. (?s1[length s := ob]) ! length s = ob" by simp
  have nodiff: "fld \<notin> set (map dfield (entries (computeDiff lc ob (s ! defaults))))"
    if g: "getProp ob fld = getProp (s ! defaults) fld" for ob
  proof -
    have "readOrEmpty ob fld = readOrEmpty (s ! defaults) fld"
      by (rule readOrEmpty_cong[OF g])
    then show ?thesis unfolding fields_computeDiff by simp
  qed
  show ?thesis
  proof (cases "getProp (s ! defaults) fld")
    case None
    let ?ob = "deleteProp ?copy fld"
    from None have h: "\<not> hasProperty (s ! defaults) fld"
      by (simp add: hasProperty_ordinary[OF assms(4)])
    have r: "revertField fld config defaults s = (length s, ?s1[length s := ?ob])"
      by (simp add: revertField_def alloc_def d1 n1 h)
    have a: "fld \<notin> set (Object_keys ?ob)" by (simp add: keys_deleteProp)
    have b: "\<forall>k. k \<noteq> fld \<longrightarrow> getProp ?ob k = getProp (s ! config) k"
      by (simp add: getProp_deleteProp getProp_spread[OF assms(3)])
    have c: "distinct (Object_keys ?ob)"
      using distinct_spread[of "s ! config"] by (simp add: Object_keys_def deleteProp_def distinct_map_filter)
    have "getProp ?ob fld = getProp (s ! defaults) fld"
      by (simp add: None getProp_deleteProp)
    from nodiff[OF this] a b c old[of ?ob] show ?thesis
      unfolding r prod.case new by (simp add: None)
  next
    case (Some v)
    let ?ob = "setProp ?copy fld v"
    from Some have h: "hasProperty (s ! defaults) fld"
      by (simp add: hasProperty_ordinary[OF assms(4)])
    have r: "revertField fld config defaults s = (length s, ?s1[length s := ?ob])"
      by (simp add: revertField_def alloc_def d1 n1 h readProp_own[OF Some]
          assign_ordinary[OF assms(4)])
    have a: "getProp ?ob fld = Some v" by (simp add: getProp_setProp)
    have b: "\<forall>k. k \<noteq> fld \<longrightarrow> getProp ?ob k = getProp (s ! config) k"
      by (simp add: getProp_setProp getProp_spread[OF assms(3)])
    have c: "distinct (Object_keys ?ob)"
      by (rule distinct_setProp[OF distinct_spread])
    have "getProp ?ob fld = getProp (s ! defaults) fld"
      by (simp add: Some a)
    from nodiff[OF this] a b c old[of ?ob] show ?thesis
      unfolding r prod.case new by (simp add: Some)
  qed
qed

text \<open>
  Claim C6. In the result of \<^verbatim>\<open>revertField\<close> the key is to be absent when \<open>defaults\<close> has
  no such key. For the field \<^verbatim>\<open>valueOf\<close>, the configuration \<^verbatim>\<open>{a: "1"}\<close> and empty defaults
  the code finds the inherited \<^verbatim>\<open>valueOf\<close> in \<open>defaults\<close> and stores that function in the
  result under the key \<^verbatim>\<open>valueOf\<close>, where for a field \<^verbatim>\<open>b\<close> that \<open>defaults\<close> lacks the key
  is removed.
\<close>

theorem revertField_inherited_key:
  "revertField ''valueOf'' 0 1 [[(''a'', Str ''1'')], []] =
     (2, [[(''a'', Str ''1'')], [],
          [(''a'', Str ''1''), (''valueOf'', PrototypeMember ''valueOf'')]]) \<and>
   revertField ''b'' 0 1 [[(''a'', Str ''1''), (''b'', Str ''2'')], []] =
     (2, [[(''a'', Str ''1''), (''b'', Str ''2'')], [], [(''a'', Str ''1'')]])"
proof -
  have a: "revertField ''valueOf'' 0 1 [[(''a'', Str ''1'')], []] =
     (2, [[(''a'', Str ''1'')], [],
          [(''a'', Str ''1''), (''valueOf'', PrototypeMember ''valueOf'')]])"
    by (simp add: revertField_def alloc_def spread_def setProp_def assign_def hasProperty_def
        lookup_def readProp_def ObjectPrototype_def isArrayIndex_def isDigit_def)
  have b: "revertField ''b'' 0 1 [[(''a'', Str ''1''), (''b'', Str ''2'')], []] =
     (2, [[(''a'', Str ''1''), (''b'', Str ''2'')], [], [(''a'', Str ''1'')]])"
    by (simp add: revertField_def alloc_def spread_def setProp_def deleteProp_def hasProperty_def
        lookup_def ObjectPrototype_def isArrayIndex_def isDigit_def)
  from a b show ?thesis by (rule conjI)
qed

section \<open>Output generator\<close>

lemma searchFrom_iff: "searchFrom m s \<longleftrightarrow> (\<exists>t. suffix t s \<and> m t)"
proof (induction s)
  case Nil
  show ?case by simp
next
  case (Cons c cs)
  have "(\<exists>t. suffix t (c # cs) \<and> m t) \<longleftrightarrow> m (c # cs) \<or> (\<exists>t. suffix t cs \<and> m t)"
    by (auto simp: suffix_Cons)
  with Cons show ?case by simp
qed

lemma matchHere_iff:
  "matchHere p t \<longleftrightarrow> prefix (map canonicalize p) (map canonicalize t)"
  by (induction p t rule: matchHere.induct) simp_all

lemma matchWhole_iff:
  "matchWhole p t \<longleftrightarrow> map canonicalize p = map canonicalize t"
  by (induction p t rule: matchWhole.induct) simp_all

lemma lowerCase_canonicalize: "lowerCase (canonicalize c) = lowerCase c"
proof (cases "c \<in> set ''abcdefghijklmnopqrstuvwxyz''")
  case True
  then show ?thesis
    by (auto simp: canonicalize_def lowerCase_def)
next
  case False
  then have "canonicalize c = c"
    by (simp add: canonicalize_def)
  then show ?thesis by simp
qed

lemma canonicalize_lowerCase: "canonicalize (lowerCase c) = canonicalize c"
proof (cases "c \<in> set ''ABCDEFGHIJKLMNOPQRSTUVWXYZ''")
  case True
  then show ?thesis
    by (auto simp: canonicalize_def lowerCase_def)
next
  case False
  then have "lowerCase c = c"
    by (simp add: lowerCase_def)
  then show ?thesis by simp
qed

lemma canonicalize_eq_iff: "canonicalize c = canonicalize d \<longleftrightarrow> lowerCase c = lowerCase d"
  by (metis lowerCase_canonicalize canonicalize_lowerCase)

lemma map_canonicalize_eq_iff:
  "map canonicalize xs = map canonicalize ys \<longleftrightarrow> map lowerCase xs = map lowerCase ys"
proof (induction xs arbitrary: ys)
  case Nil
  show ?case by simp
next
  case (Cons x xs)
  show ?case
  proof (cases ys)
    case Nil
    then show ?thesis by simp
  next
    case (Cons y ys')
    with Cons.IH[of ys'] show ?thesis by (simp add: canonicalize_eq_iff)
  qed
qed

lemma prefix_map_take:
  "prefix (map f p) (map f t) \<longleftrightarrow> length p \<le> length t \<and> map f p = map f (take (length p) t)"
proof
  assume "prefix (map f p) (map f t)"
  then obtain zs where z: "map f t = map f p @ zs" by (auto simp: prefix_def)
  then have "length p \<le> length t"
    by (metis length_append length_map le_add1)
  moreover from z have "take (length p) (map f t) = map f p" by simp
  ultimately show "length p \<le> length t \<and> map f p = map f (take (length p) t)"
    by (simp add: take_map)
next
  assume a: "length p \<le> length t \<and> map f p = map f (take (length p) t)"
  have "map f t = map f (take (length p) t) @ map f (drop (length p) t)"
    by (metis append_take_drop_id map_append)
  with a show "prefix (map f p) (map f t)" by (metis prefixI)
qed

lemma prefix_canonicalize_iff:
  "prefix (map canonicalize p) (map canonicalize t) \<longleftrightarrow>
   prefix (map lowerCase p) (map lowerCase t)"
  by (simp add: prefix_map_take map_canonicalize_eq_iff)

lemma suffix_map_iff:
  "suffix ys (map f xs) \<longleftrightarrow> (\<exists>t. suffix t xs \<and> ys = map f t)"
proof
  assume "suffix ys (map f xs)"
  then obtain zs where "map f xs = zs @ ys" by (auto simp: suffix_def)
  then obtain a b where "xs = a @ b" "ys = map f b"
    by (auto simp: map_eq_append_conv)
  then show "\<exists>t. suffix t xs \<and> ys = map f t" by (auto simp: suffix_def)
next
  assume "\<exists>t. suffix t xs \<and> ys = map f t"
  then show "suffix ys (map f xs)" by (auto simp: suffix_def)
qed

lemma contains_iff:
  assumes "map lowerCase w = w"
  shows "regexTest (Contains w) name \<longleftrightarrow> sublist w (map lowerCase name)"
proof -
  have "regexTest (Contains w) name \<longleftrightarrow>
          (\<exists>t. suffix t name \<and> prefix (map lowerCase w) (map lowerCase t))"
    by (simp add: searchFrom_iff matchHere_iff prefix_canonicalize_iff)
  also have "\<dots> \<longleftrightarrow> (\<exists>ys. suffix ys (map lowerCase name) \<and> prefix w ys)"
    unfolding suffix_map_iff assms by blast
  also have "\<dots> \<longleftrightarrow> sublist w (map lowerCase name)"
    by (simp add: sublist_altdef')
  finally show ?thesis .
qed

lemma endsWith_iff:
  assumes "map lowerCase w = w"
  shows "regexTest (EndsWith w) name \<longleftrightarrow> suffix w (map lowerCase name)"
proof -
  have "regexTest (EndsWith w) name \<longleftrightarrow>
          (\<exists>t. suffix t name \<and> map lowerCase w = map lowerCase t)"
    by (simp add: searchFrom_iff matchWhole_iff map_canonicalize_eq_iff)
  also have "\<dots> \<longleftrightarrow> suffix w (map lowerCase name)"
    unfolding suffix_map_iff assms by blast
  finally show ?thesis .
qed

lemma isSensitiveField_spec: "isSensitiveField name = specSensitiveName name"
proof -
  have l: "map lowerCase ''password'' = ''password''" "map lowerCase ''secret'' = ''secret''"
    "map lowerCase ''key'' = ''key''" "map lowerCase ''token'' = ''token''"
    "map lowerCase ''credential'' = ''credential''" "map lowerCase ''pass'' = ''pass''"
    by (simp_all add: lowerCase_def)
  show ?thesis
    unfolding isSensitiveField_def specSensitiveName_def SENSITIVE_PATTERNS_def
    by (simp only: list_ex_Nil_iff list_ex_Cons_iff contains_iff[OF l(1)] contains_iff[OF l(2)]
        contains_iff[OF l(3)] contains_iff[OF l(4)] contains_iff[OF l(5)]
        endsWith_iff[OF l(6)] simp_thms disj_assoc)
qed

lemma map_of_filter_nonempty:
  "distinct (map fst config) \<Longrightarrow>
   map_of (filter (\<lambda>(k, v). v \<noteq> '''') config) x =
     (case map_of config x of None \<Rightarrow> None | Some v \<Rightarrow> if v = '''' then None else Some v)"
proof (induction config)
  case Nil
  show ?case by simp
next
  case (Cons a config)
  obtain k v where a: "a = (k, v)" by (cases a)
  from Cons.prems a have d: "distinct (map fst config)" and nk: "k \<notin> fst ` set config"
    by auto
  show ?case
  proof (cases "x = k")
    case True
    from nk have "map_of config k = None" by (simp add: map_of_eq_None_iff)
    moreover from nk have "map_of (filter (\<lambda>(k, v). v \<noteq> '''') config) k = None"
      by (auto simp: map_of_eq_None_iff)
    ultimately show ?thesis using True by (simp add: a)
  next
    case False
    with Cons.IH[OF d] show ?thesis by (simp add: a)
  qed
qed

lemma getProp_filter_nonempty:
  assumes "distinct (Object_keys config)"
  shows "orDefault (getProp (filter (\<lambda>(k, v). v \<noteq> []) config) x) d =
           orDefault (getProp config x) d"
    and "w \<noteq> [] \<Longrightarrow>
         (getProp (filter (\<lambda>(k, v). v \<noteq> []) config) x = Some w) = (getProp config x = Some w)"
proof -
  from assms have d: "distinct (map fst config)" by (simp add: Object_keys_def)
  note f = map_of_filter_nonempty[OF d, of x]
  show "orDefault (getProp (filter (\<lambda>(k, v). v \<noteq> []) config) x) d =
           orDefault (getProp config x) d"
    unfolding getProp_def f by (cases "map_of config x") (simp_all add: orDefault_def)
  assume "w \<noteq> []"
  then show "(getProp (filter (\<lambda>(k, v). v \<noteq> []) config) x = Some w) = (getProp config x = Some w)"
    unfolding getProp_def f by (cases "map_of config x") auto
qed

lemma outputEntries_filter:
  "outputEntries (filter (\<lambda>(k, v). v \<noteq> '''') config) m = outputEntries config m"
  by (simp add: outputEntries_def Object_entries_def)

lemma generateDockerComposeOutput_filter:
  assumes "distinct (Object_keys config)"
  shows "generateDockerComposeOutput (filter (\<lambda>(k, v). v \<noteq> '''') config) ents options now =
         generateDockerComposeOutput config ents options now"
proof -
  have pg: "(getProp (filter (\<lambda>(k, v). v \<noteq> '''') config) ''DB_TYPE'' = Some ''postgresdb'') =
            (getProp config ''DB_TYPE'' = Some ''postgresdb'')"
    by (rule getProp_filter_nonempty(2)[OF assms]) simp
  have qu: "(getProp (filter (\<lambda>(k, v). v \<noteq> '''') config) ''EXECUTIONS_MODE'' = Some ''queue'') =
            (getProp config ''EXECUTIONS_MODE'' = Some ''queue'')"
    by (rule getProp_filter_nonempty(2)[OF assms]) simp
  show ?thesis
    unfolding generateDockerComposeOutput_def pg qu getProp_filter_nonempty(1)[OF assms] ..
qed

lemma generateDockerRunOutput_filter:
  assumes "distinct (Object_keys config)"
  shows "generateDockerRunOutput (filter (\<lambda>(k, v). v \<noteq> '''') config) ents options now =
         generateDockerRunOutput config ents options now"
  unfolding generateDockerRunOutput_def getProp_filter_nonempty(1)[OF assms] ..

lemma generateKubernetesOutput_filter:
  "generateKubernetesOutput (filter (\<lambda>(k, v). v \<noteq> '''') config) ents options now =
   generateKubernetesOutput config ents options now"
  unfolding generateKubernetesOutput_def ..

text \<open>The output does not depend on the keys whose value is the empty string.\<close>

lemma generateOutput_filter:
  assumes "distinct (Object_keys config)"
  shows "generateOutput (filter (\<lambda>(k, v). v \<noteq> '''') config) fo now = generateOutput config fo now"
  unfolding generateOutput_def outputEntries_filter
    generateDockerComposeOutput_filter[OF assms] generateDockerRunOutput_filter[OF assms]
    generateKubernetesOutput_filter ..

lemma outputEntries_surviving: "outputEntries config m = survivingEntries config m"
proof -
  have "maskSensitiveValues ents m =
        map (\<lambda>(key, val).
               (key, if m \<and> specSensitiveName key then SECRET_PLACEHOLDER else val)) ents"
    if "\<forall>(key, val)\<in>set ents. val \<noteq> ''''" for ents
    using that
    by (induction ents) (auto simp: maskSensitiveValues_def isSensitiveField_spec)
  then show ?thesis
    by (simp add: outputEntries_def survivingEntries_def Object_entries_def)
qed

lemma unlines_Nil [simp]: "unlines [] = []"
  by (simp add: unlines_def)

lemma unlines_Cons [simp]: "unlines (l # ls) = l @ NL @ unlines ls"
  by (simp add: unlines_def ln_def)

lemma unlines_append [simp]: "unlines (xs @ ys) = unlines xs @ unlines ys"
  by (simp add: unlines_def)

lemma join_snoc: "join NL (ls @ [l]) = unlines ls @ l"
proof (induction ls)
  case Nil
  show ?case by simp
next
  case (Cons a ls)
  then show ?case by (cases ls) simp_all
qed

lemma ln_join: "join NL ls @ NL = unlines (if ls = [] then [[]] else ls)"
proof (induction ls)
  case Nil
  show ?case by simp
next
  case (Cons a ls)
  then show ?case by (cases ls) simp_all
qed

lemma splitLines_oneLine: "oneLine l \<Longrightarrow> splitLines (l @ NL @ rest) = l # splitLines rest"
  by (induction l) (auto simp: oneLine_def NL_def)

lemma splitLines_last: "oneLine l \<Longrightarrow> splitLines l = [l]"
  by (induction l) (auto simp: oneLine_def)

lemma splitLines_unlines:
  "list_all oneLine ls \<Longrightarrow> oneLine l \<Longrightarrow> splitLines (unlines ls @ l) = ls @ [l]"
  by (induction ls) (simp_all add: splitLines_oneLine splitLines_last)

lemma generateHeader_compose:
  "generateHeader ''docker-compose'' w c now = unlines (composeHeaderLines c w now)"
  by (simp add: generateHeader_def composeHeaderLines_def Let_def)

lemma join_lines_rest: "xs \<noteq> [] \<Longrightarrow> join NL xs @ NL @ rest = unlines xs @ rest"
  using ln_join[of xs] by (metis append_assoc)

lemma generateDockerComposeOutput_lines:
  "generateDockerComposeOutput config ents options now =
     join NL
       (composeHeaderLines (includeComments options = Some True) (wizardVersion options) now @
        n8nServiceLines config ents (includeComments options = Some True)
          (composeVersion options) @
        (if getProp config ''DB_TYPE'' = Some ''postgresdb''
         then postgresServiceLines config (includeComments options = Some True) else []) @
        (if getProp config ''EXECUTIONS_MODE'' = Some ''queue''
         then redisServiceLines (includeComments options = Some True) else []) @
        volumesLines (getProp config ''DB_TYPE'' = Some ''postgresdb'')
          (getProp config ''EXECUTIONS_MODE'' = Some ''queue'')
          (includeComments options = Some True))"
proof -
  have flag: "(case includeComments options of None \<Rightarrow> False | Some b \<Rightarrow> b) =
              (includeComments options = Some True)"
    by (cases "includeComments options") auto
  have vol: "volumesLines database queue comments =
     butlast (volumesLines database queue comments) @ [last (volumesLines database queue comments)]"
    for database queue comments
    by (simp add: volumesLines_def)
  show ?thesis
    apply (subst vol)
    apply (simp only: append_assoc[symmetric] join_snoc)
    apply (cases "includeComments options = Some True";
           cases "getProp config ''DB_TYPE'' = Some ''postgresdb''";
           cases "getProp config ''EXECUTIONS_MODE'' = Some ''queue''";
           cases "ents = []")
    apply (simp_all add: generateDockerComposeOutput_def Let_def flag generateHeader_compose
        n8nServiceLines_def postgresServiceLines_def
        redisServiceLines_def volumesLines_def join_lines_rest)
    done
qed

lemma generateOutput_compose:
  assumes "format (optionsOf fo) = ''docker-compose''"
  shows "generateOutput config fo now = join NL (composeDocument config fo now)"
proof -
  have flag: "(case maskSecrets (optionsOf fo) of None \<Rightarrow> False | Some b \<Rightarrow> b) =
              (maskSecrets (optionsOf fo) = Some True)"
    by (cases "maskSecrets (optionsOf fo)") auto
  have "generateOutput config fo now =
        generateDockerComposeOutput config
          (survivingEntries config (maskSecrets (optionsOf fo) = Some True)) (optionsOf fo) now"
    using assms by (simp add: generateOutput_def Let_def flag outputEntries_surviving)
  then show ?thesis
    by (simp only: generateDockerComposeOutput_lines composeDocument_def Let_def)
qed

lemma oneLine_append [simp]: "oneLine (a @ b) \<longleftrightarrow> oneLine a \<and> oneLine b"
  by (auto simp: oneLine_def)

lemma oneLine_Nil [simp]: "oneLine []"
  by (simp add: oneLine_def)

lemma oneLine_Cons [simp]: "oneLine (c # cs) \<longleftrightarrow> c \<noteq> CHR 0x0A \<and> oneLine cs"
  by (auto simp: oneLine_def)

lemma oneLine_orDefault:
  assumes "list_all (\<lambda>(key, val). oneLine key \<and> oneLine val) config" and "oneLine d"
  shows "oneLine (orDefault (getProp config k) d)"
proof (cases "getProp config k")
  case None
  with assms(2) show ?thesis by (simp add: orDefault_def)
next
  case (Some v)
  then have "(k, v) \<in> set config" by (simp add: getProp_def map_of_SomeD)
  with assms(1) have "oneLine v" by (auto simp: list_all_iff)
  with Some assms(2) show ?thesis by (simp add: orDefault_def)
qed

lemma oneLine_survivingEntries:
  assumes "list_all (\<lambda>(key, val). oneLine key \<and> oneLine val) config"
  shows "list_all (\<lambda>(key, val). oneLine key \<and> oneLine val) (survivingEntries config m)"
  using assms
  by (auto simp: list_all_iff survivingEntries_def SECRET_PLACEHOLDER_def split: if_splits)

lemma oneLine_composeDocument:
  assumes "oneLineInputs config (optionsOf fo) now"
  shows "list_all oneLine (composeDocument config fo now)"
proof -
  from assms have cfg: "list_all (\<lambda>(key, val). oneLine key \<and> oneLine val) config"
    and cv: "oneLine (orDefault (composeVersion (optionsOf fo)) ''3.8'')"
    and wv: "oneLine (orDefault (wizardVersion (optionsOf fo)) ''1.0.0'')"
    and now: "oneLine now"
    by (simp_all add: oneLineInputs_def)
  have h: "list_all oneLine (composeHeaderLines c (wizardVersion (optionsOf fo)) now)" for c
    using wv now by (simp add: composeHeaderLines_def)
  have e: "list_all oneLine (map (\<lambda>(key, val). ''      - '' @ key @ ''='' @ val) ents)"
    if "list_all (\<lambda>(key, val). oneLine key \<and> oneLine val) ents" for ents
    using that by (induction ents) auto
  have n: "list_all oneLine (n8nServiceLines config (survivingEntries config m) c
             (composeVersion (optionsOf fo)))" for c m
    using cv oneLine_orDefault[OF cfg, of "''5678''" "''N8N_PORT''"]
      e[OF oneLine_survivingEntries[OF cfg, of m]]
    by (simp add: n8nServiceLines_def SQ_def DQ_def)
  have p: "list_all oneLine (postgresServiceLines config c)" for c
    using oneLine_orDefault[OF cfg, of "''postgres''" "''DB_POSTGRESDB_USER''"]
      oneLine_orDefault[OF cfg, of "''password''" "''DB_POSTGRESDB_PASSWORD''"]
      oneLine_orDefault[OF cfg, of "''n8n''" "''DB_POSTGRESDB_DATABASE''"]
    by (simp add: postgresServiceLines_def)
  have r: "list_all oneLine (redisServiceLines c)" for c
    by (simp add: redisServiceLines_def)
  have v: "list_all oneLine (volumesLines a b c)" for a b c
    by (simp add: volumesLines_def)
  show ?thesis
    by (simp add: composeDocument_def Let_def h n p r v)
qed

lemma splitLines_join:
  assumes "ls \<noteq> []" and "list_all oneLine ls"
  shows "splitLines (join NL ls) = ls"
proof -
  from assms(1) have ls: "ls = butlast ls @ [last ls]" by simp
  from assms(2) have a: "list_all oneLine (butlast ls)" and b: "oneLine (last ls)"
    using assms(1) by (auto simp: list_all_iff dest: in_set_butlastD)
  have "splitLines (join NL (butlast ls @ [last ls])) = butlast ls @ [last ls]"
    unfolding join_snoc by (rule splitLines_unlines[OF a b])
  with ls show ?thesis by simp
qed

lemma composeDocument_not_Nil: "composeDocument config fo now \<noteq> []"
  by (simp add: composeDocument_def Let_def volumesLines_def)

lemma entry_line_neq:
  "''  postgres:'' \<notin> set (map (\<lambda>(key, val). ''      - '' @ key @ ''='' @ val) ents)"
  "''  redis:'' \<notin> set (map (\<lambda>(key, val). ''      - '' @ key @ ''='' @ val) ents)"
  "''  postgres_data:'' \<notin> set (map (\<lambda>(key, val). ''      - '' @ key @ ''='' @ val) ents)"
  "''  redis_data:'' \<notin> set (map (\<lambda>(key, val). ''      - '' @ key @ ''='' @ val) ents)"
  by auto

lemma composeDocument_blocks:
  "(''  postgres:'' \<in> set (composeDocument config fo now)) =
     (getProp config ''DB_TYPE'' = Some ''postgresdb'')"
  "(''  postgres_data:'' \<in> set (composeDocument config fo now)) =
     (getProp config ''DB_TYPE'' = Some ''postgresdb'')"
  "(''  redis:'' \<in> set (composeDocument config fo now)) =
     (getProp config ''EXECUTIONS_MODE'' = Some ''queue'')"
  "(''  redis_data:'' \<in> set (composeDocument config fo now)) =
     (getProp config ''EXECUTIONS_MODE'' = Some ''queue'')"
  using entry_line_neq[of "survivingEntries config (maskSecrets (optionsOf fo) = Some True)"]
  by (cases "includeComments (optionsOf fo) = Some True";
      cases "getProp config ''DB_TYPE'' = Some ''postgresdb''";
      cases "getProp config ''EXECUTIONS_MODE'' = Some ''queue''";
      simp add: composeDocument_def Let_def composeHeaderLines_def n8nServiceLines_def
        postgresServiceLines_def redisServiceLines_def volumesLines_def SQ_def DQ_def)+

lemma composeDocument_postgres_sublist:
  assumes "getProp config ''DB_TYPE'' = Some ''postgresdb''"
  shows "sublist (postgresServiceLines config (includeComments (optionsOf fo) = Some True))
     (composeDocument config fo now)"
proof -
  obtain hd tl where "composeDocument config fo now =
      hd @ postgresServiceLines config (includeComments (optionsOf fo) = Some True) @ tl"
    using assms by (simp add: composeDocument_def Let_def del: append_assoc)
      (metis append_assoc)
  then show ?thesis by (simp only: sublist_appendI)
qed

lemma composeDocument_redis_sublist:
  assumes "getProp config ''EXECUTIONS_MODE'' = Some ''queue''"
  shows "sublist (redisServiceLines (includeComments (optionsOf fo) = Some True))
     (composeDocument config fo now)"
proof -
  obtain hd tl where "composeDocument config fo now =
      hd @ redisServiceLines (includeComments (optionsOf fo) = Some True) @ tl"
    using assms by (simp add: composeDocument_def Let_def del: append_assoc)
      (metis append_assoc)
  then show ?thesis by (simp only: sublist_appendI)
qed

section \<open>The four formats as lines\<close>

lemma join_append: "ys \<noteq> [] \<Longrightarrow> join NL (xs @ ys) = unlines xs @ join NL ys"
proof -
  assume "ys \<noteq> []"
  then have ys: "ys = butlast ys @ [last ys]" by simp
  have "join NL (xs @ butlast ys @ [last ys]) = unlines xs @ join NL (butlast ys @ [last ys])"
    by (simp only: append_assoc[symmetric] join_snoc) simp
  with ys show ?thesis by simp
qed

lemma join_entries: "join NL (if ls = [] then [''''] else ls) = join NL ls"
  by simp

lemma unlines_entries: "unlines (if ls = [] then [''''] else ls) = join NL ls @ NL"
  by (simp only: ln_join)

lemma generateEnvOutput_lines:
  "generateEnvOutput ents options now = join NL (envDocument ents options now)"
proof -
  let ?E = "map (\<lambda>(key, val). key @ ''='' @ val) ents"
  have e: "(if ents = [] then [''''] else ?E) = (if ?E = [] then [''''] else ?E)" by simp
  have "join NL (envDocument ents options now) =
        unlines [''# Generated by n8n Configuration Wizard v'' @
                   orDefault (wizardVersion options) ''1.0.0'',
                 ''# Timestamp: '' @ now, ''#''] @
        join NL (if ents = [] then [''''] else ?E)"
    unfolding envDocument_def by (rule join_append) simp
  also have "join NL (if ents = [] then [''''] else ?E) = join NL ?E"
    unfolding e by (rule join_entries)
  finally show ?thesis
    by (simp add: generateEnvOutput_def generateHeader_def Let_def)
qed

lemma runFlags_lines:
  "''  '' @ join ('' '' @ BSL @ NL @ ''  '')
             (map (\<lambda>(key, val). ''-e '' @ key @ ''='' @ DQ @ val @ DQ) ents) @ '' '' @ BSL @ NL =
   unlines (if ents = [] then [''   '' @ BSL]
            else map (\<lambda>(key, val). ''  -e '' @ key @ ''='' @ DQ @ val @ DQ @ '' '' @ BSL) ents)"
proof (induction ents)
  case Nil
  show ?case by simp
next
  case (Cons e ents)
  obtain k v where e: "e = (k, v)" by (cases e)
  show ?case
  proof (cases ents)
    case Nil
    then show ?thesis by (simp add: e)
  next
    case (Cons e' ents')
    with Cons.IH show ?thesis by (simp add: e)
  qed
qed

lemma generateHeader_run:
  "generateHeader ''docker-run'' w c now =
     unlines (if c then [''# Generated by n8n Configuration Wizard v'' @ orDefault w ''1.0.0'',
                         ''# Timestamp: '' @ now]
              else [])"
  by (simp add: generateHeader_def Let_def)

lemma comments_flag:
  "(case includeComments options of None \<Rightarrow> False | Some b \<Rightarrow> b) =
   (includeComments options = Some True)"
  by (cases "includeComments options") auto

lemma join_frame:
  "join NL (h @ a @ f @ [x, l]) = unlines h @ unlines a @ unlines f @ unlines [x] @ l"
proof -
  have "join NL ((h @ a @ f @ [x]) @ [l]) = unlines (h @ a @ f @ [x]) @ l"
    by (rule join_snoc)
  then show ?thesis by simp
qed

lemma generateDockerRunOutput_lines:
  "generateDockerRunOutput config ents options now =
     join NL (dockerRunDocument config ents options now)"
proof -
  let ?F = "if ents = [] then [''   '' @ BSL]
     else map (\<lambda>(key, val). ''  -e '' @ key @ ''='' @ DQ @ val @ DQ @ '' '' @ BSL) ents"
  have f: "unlines ?F =
     ''  '' @ join ('' '' @ BSL @ NL @ ''  '')
             (map (\<lambda>(key, val). ''-e '' @ key @ ''='' @ DQ @ val @ DQ) ents) @ '' '' @ BSL @ NL"
    by (rule runFlags_lines[symmetric])
  show ?thesis
    unfolding dockerRunDocument_def join_frame f
    by (simp add: generateDockerRunOutput_def Let_def comments_flag generateHeader_run)
qed

lemma escapeQuotes_eq: "escapeQuotes s = quoteEscaped s"
  by (induction s) (simp_all add: escapeQuotes_def BSL_def DQ_def)

lemma references_lines:
  "join NL (map (\<lambda>(key, val).
                   join NL
                     [''        - name: '' @ key,
                      ''          valueFrom:'',
                      ''            configMapKeyRef:'',
                      ''              name: n8n-config'',
                      ''              key: '' @ key]) ents) @ NL =
   unlines (if ents = [] then ['''']
            else concat (map (\<lambda>(key, val).
                                [''        - name: '' @ key,
                                 ''          valueFrom:'',
                                 ''            configMapKeyRef:'',
                                 ''              name: n8n-config'',
                                 ''              key: '' @ key]) ents))"
proof (induction ents)
  case Nil
  show ?case by simp
next
  case (Cons e ents)
  obtain k v where e: "e = (k, v)" by (cases e)
  show ?case
  proof (cases ents)
    case Nil
    then show ?thesis by (simp add: e)
  next
    case (Cons e' ents')
    with Cons.IH show ?thesis by (simp add: e)
  qed
qed

lemma generateHeader_kubernetes:
  "generateHeader ''kubernetes'' w c now =
     unlines (if c then [''# Generated by n8n Configuration Wizard v'' @ orDefault w ''1.0.0'',
                         ''# Timestamp: '' @ now,
                         ''# This manifest includes a ConfigMap and Deployment for n8n'',
                         ''---'']
              else [])"
  by (simp add: generateHeader_def Let_def)

lemma data_lines:
  "unlines (if ents = [] then ['''']
            else map (\<lambda>(key, val). ''  '' @ key @ '': '' @ DQ @ quoteEscaped val @ DQ) ents) =
   join NL (map (\<lambda>(key, val). ''  '' @ key @ '': '' @ DQ @ escapeQuotes val @ DQ) ents) @ NL"
proof -
  let ?D = "map (\<lambda>(key, val). ''  '' @ key @ '': '' @ DQ @ quoteEscaped val @ DQ) ents"
  have "(if ents = [] then [''''] else ?D) = (if ?D = [] then [''''] else ?D)" by simp
  then show ?thesis
    by (simp only: unlines_entries escapeQuotes_eq)
qed

lemma generateKubernetesOutput_lines:
  "generateKubernetesOutput config ents options now =
     join NL (kubernetesDocument ents options now)"
proof -
  let ?H = "if includeComments options = Some True
     then [''# Generated by n8n Configuration Wizard v'' @
             orDefault (wizardVersion options) ''1.0.0'',
           ''# Timestamp: '' @ now,
           ''# This manifest includes a ConfigMap and Deployment for n8n'',
           ''---'',
           ''# ConfigMap containing n8n environment variables'']
     else []"
  let ?A = "[''apiVersion: v1'',
     ''kind: ConfigMap'',
     ''metadata:'',
     ''  name: n8n-config'',
     ''  labels:'',
     ''    app: n8n'',
     ''data:'']"
  let ?D = "if ents = [] then ['''']
     else map (\<lambda>(key, val). ''  '' @ key @ '': '' @ DQ @ quoteEscaped val @ DQ) ents"
  let ?C = "if includeComments options = Some True
     then [''# Deployment for n8n workflow automation''] else []"
  let ?B = "[''apiVersion: apps/v1'',
     ''kind: Deployment'',
     ''metadata:'',
     ''  name: n8n'',
     ''  labels:'',
     ''    app: n8n'',
     ''spec:'',
     ''  replicas: 1'',
     ''  selector:'',
     ''    matchLabels:'',
     ''      app: n8n'',
     ''  template:'',
     ''    metadata:'',
     ''      labels:'',
     ''        app: n8n'',
     ''    spec:'',
     ''      containers:'',
     ''      - name: n8n'',
     ''        image: docker.n8n.io/n8nio/n8n'',
     ''        ports:'',
     ''        - containerPort: 5678'',
     ''        env:'']"
  let ?R = "if ents = [] then ['''']
     else concat (map (\<lambda>(key, val).
                         [''        - name: '' @ key,
                          ''          valueFrom:'',
                          ''            configMapKeyRef:'',
                          ''              name: n8n-config'',
                          ''              key: '' @ key]) ents)"
  let ?T = "[''        volumeMounts:'',
     ''        - name: n8n-data'',
     ''          mountPath: /home/node/.n8n'',
     ''      volumes:'',
     ''      - name: n8n-data'',
     ''        persistentVolumeClaim:'',
     ''          claimName: n8n-data-pvc'',
     ''---'',
     ''apiVersion: v1'',
     ''kind: Service'',
     ''metadata:'',
     ''  name: n8n'',
     ''  labels:'',
     ''    app: n8n'',
     ''spec:'',
     ''  type: ClusterIP'',
     ''  ports:'',
     ''  - port: 5678'',
     ''    targetPort: 5678'',
     ''  selector:'']"
  have doc: "kubernetesDocument ents options now =
               (?H @ ?A @ ?D @ [''---''] @ ?C @ ?B @ ?R @ ?T) @ [''    app: n8n'']"
    by (simp add: kubernetesDocument_def)
  have "join NL (kubernetesDocument ents options now) =
          unlines (?H @ ?A @ ?D @ [''---''] @ ?C @ ?B @ ?R @ ?T) @ ''    app: n8n''"
    unfolding doc by (rule join_snoc)
  also have "\<dots> = unlines ?H @ unlines ?A @ unlines ?D @ unlines [''---''] @ unlines ?C @
                   unlines ?B @ unlines ?R @ unlines ?T @ ''    app: n8n''"
    by (simp only: unlines_append append_assoc)
  finally have j: "join NL (kubernetesDocument ents options now) =
     unlines ?H @ unlines ?A @ unlines ?D @ unlines [''---''] @ unlines ?C @
     unlines ?B @ unlines ?R @ unlines ?T @ ''    app: n8n''" .
  show ?thesis
    unfolding j data_lines references_lines[symmetric]
    by (cases "includeComments options = Some True")
      (simp_all add: generateKubernetesOutput_def Let_def comments_flag generateHeader_kubernetes)
qed

lemma generateOutput_document:
  "generateOutput config fo now = join NL (outputDocument config fo now)"
proof -
  have flag: "(case maskSecrets (optionsOf fo) of None \<Rightarrow> False | Some b \<Rightarrow> b) =
              (maskSecrets (optionsOf fo) = Some True)"
    by (cases "maskSecrets (optionsOf fo)") auto
  show ?thesis
  proof (cases "format (optionsOf fo) = ''docker-compose''")
    case True
    then show ?thesis
      by (simp add: generateOutput_compose outputDocument_def)
  next
    case False
    then show ?thesis
      by (simp add: generateOutput_def outputDocument_def Let_def flag outputEntries_surviving
          generateEnvOutput_lines generateDockerRunOutput_lines generateKubernetesOutput_lines)
  qed
qed

lemma oneLine_quoteEscaped [simp]: "oneLine (quoteEscaped s) = oneLine s"
  by (induction s) simp_all

lemma oneLine_outputDocument:
  assumes "oneLineInputs config (optionsOf fo) now"
  shows "list_all oneLine (outputDocument config fo now)"
proof -
  let ?m = "maskSecrets (optionsOf fo) = Some True"
  from assms have cfg: "list_all (\<lambda>(key, val). oneLine key \<and> oneLine val) config"
    and wv: "oneLine (orDefault (wizardVersion (optionsOf fo)) ''1.0.0'')"
    and now: "oneLine now"
    by (simp_all add: oneLineInputs_def)
  note es = oneLine_survivingEntries[OF cfg, of ?m]
  have env: "list_all oneLine (map (\<lambda>(key, val). key @ ''='' @ val) ents)"
    and run: "list_all oneLine
      (map (\<lambda>(key, val). ''  -e '' @ key @ ''='' @ DQ @ val @ DQ @ '' '' @ BSL) ents)"
    and dat: "list_all oneLine
      (map (\<lambda>(key, val). ''  '' @ key @ '': '' @ DQ @ quoteEscaped val @ DQ) ents)"
    and ref: "list_all oneLine
      (concat (map (\<lambda>(key, val).
                         [''        - name: '' @ key,
                          ''          valueFrom:'',
                          ''            configMapKeyRef:'',
                          ''              name: n8n-config'',
                          ''              key: '' @ key]) ents))"
    if "list_all (\<lambda>(key, val). oneLine key \<and> oneLine val) ents" for ents
    using that by (induction ents) (auto simp: DQ_def BSL_def)
  have e: "list_all oneLine (envDocument (survivingEntries config ?m) (optionsOf fo) now)"
    using wv now env[OF es] by (simp add: envDocument_def)
  have r: "list_all oneLine
      (dockerRunDocument config (survivingEntries config ?m) (optionsOf fo) now)"
    using wv now run[OF es] oneLine_orDefault[OF cfg, of "''5678''" "''N8N_PORT''"]
    by (simp add: dockerRunDocument_def BSL_def)
  have k: "list_all oneLine (kubernetesDocument (survivingEntries config ?m) (optionsOf fo) now)"
    using wv now dat[OF es] ref[OF es] by (simp add: kubernetesDocument_def)
  show ?thesis
    using e r k oneLine_composeDocument[OF assms]
    by (simp add: outputDocument_def Let_def)
qed

lemma outputDocument_not_Nil: "outputDocument config fo now \<noteq> []"
  by (simp add: outputDocument_def Let_def envDocument_def dockerRunDocument_def
      kubernetesDocument_def composeDocument_not_Nil)




text \<open>
  The database block of the compose file reads \<^verbatim>\<open>DB_POSTGRESDB_PASSWORD\<close> from the
  configuration and not from the masked entries: with \<^verbatim>\<open>maskSecrets\<close> the entry of the
  key carries the placeholder and the block carries the password.
\<close>

lemma compose_database_password_in_clear:
  "''      - DB_POSTGRESDB_PASSWORD=********'' \<in> set (splitLines (generateOutput
      [(''DB_TYPE'', ''postgresdb''), (''DB_POSTGRESDB_PASSWORD'', ''hunter2'')]
      (OptionsObject \<lparr>format = ''docker-compose'', composeVersion = None,
         maskSecrets = Some True, includeComments = None, wizardVersion = None\<rparr>)
      ''2026-01-01T00:00:00.000Z'')) \<and>
   ''      - POSTGRES_PASSWORD=hunter2'' \<in> set (splitLines (generateOutput
      [(''DB_TYPE'', ''postgresdb''), (''DB_POSTGRESDB_PASSWORD'', ''hunter2'')]
      (OptionsObject \<lparr>format = ''docker-compose'', composeVersion = None,
         maskSecrets = Some True, includeComments = None, wizardVersion = None\<rparr>)
      ''2026-01-01T00:00:00.000Z''))"
proof -
  let ?config = "[(''DB_TYPE'', ''postgresdb''), (''DB_POSTGRESDB_PASSWORD'', ''hunter2'')]"
  let ?fo = "OptionsObject \<lparr>format = ''docker-compose'', composeVersion = None,
         maskSecrets = Some True, includeComments = None, wizardVersion = None\<rparr>"
  let ?now = "''2026-01-01T00:00:00.000Z''"
  have f: "format (optionsOf ?fo) = ''docker-compose''" by (simp add: optionsOf_def)
  have o: "oneLineInputs ?config (optionsOf ?fo) ?now"
    by (simp add: oneLineInputs_def optionsOf_def orDefault_def)
  have s: "specSensitiveName ''DB_POSTGRESDB_PASSWORD''" "\<not> specSensitiveName ''DB_TYPE''"
    by code_simp+
  have l: "splitLines (generateOutput ?config ?fo ?now) = composeDocument ?config ?fo ?now"
    unfolding generateOutput_compose[OF f]
    by (rule splitLines_join[OF composeDocument_not_Nil oneLine_composeDocument[OF o]])
  show ?thesis
    unfolding l
    by (simp add: composeDocument_def optionsOf_def n8nServiceLines_def postgresServiceLines_def
        survivingEntries_def s SECRET_PLACEHOLDER_def getProp_def orDefault_def)
qed

text \<open>
  Claim C10. A bare format string gives the same output as the options object that holds
  only that format, for the same reading of the clock; a format other than the four known
  ones gives the empty string.
\<close>

theorem generateOutput_format_string:
  "generateOutput config (FormatString f) now =
     generateOutput config
       (OptionsObject \<lparr>format = f, composeVersion = None, maskSecrets = None,
          includeComments = None, wizardVersion = None\<rparr>) now \<and>
   (format (optionsOf fo) \<notin> set [''env'', ''docker-compose'', ''docker-run'', ''kubernetes''] \<longrightarrow>
      generateOutput config fo now = '''')"
  by (simp add: generateOutput_def optionsOf_def Let_def)

theorem generateOutput_format_string_witness:
  "generateOutput [(''N8N_PORT'', ''9000'')] (FormatString ''yaml'') ''2026-01-01T00:00:00.000Z'' = '''' \<and>
   generateOutput [(''N8N_PORT'', ''9000'')] (FormatString ''env'') ''2026-01-01T00:00:00.000Z'' =
     generateOutput [(''N8N_PORT'', ''9000'')]
       (OptionsObject \<lparr>format = ''env'', composeVersion = None, maskSecrets = None,
          includeComments = None, wizardVersion = None\<rparr>) ''2026-01-01T00:00:00.000Z''"
proof -
  have "format (optionsOf (FormatString ''yaml'')) \<notin>
          set [''env'', ''docker-compose'', ''docker-run'', ''kubernetes'']"
    by (simp add: optionsOf_def)
  with generateOutput_format_string[of "[(''N8N_PORT'', ''9000'')]" "''env''"
      "''2026-01-01T00:00:00.000Z''" "FormatString ''yaml''"]
  show ?thesis by blast
qed

text \<open>
  Claim C4, as amended. When no key, value or option of the call holds a line break, the
  lines of the compose output are those of the header, the n8n service, the database
  service block (with the fallbacks postgres, password and n8n), the queue service block
  and the volumes section: the output has the database block exactly when \<^verbatim>\<open>DB_TYPE\<close>
  is \<^verbatim>\<open>postgresdb\<close> and the queue block exactly when \<^verbatim>\<open>EXECUTIONS_MODE\<close> is \<^verbatim>\<open>queue\<close>,
  and it ends with the volumes section, which declares the database and queue volumes
  for the blocks emitted; for \<^verbatim>\<open>{EXECUTIONS_MODE: "queue"}\<close> it has the queue block and
  no database block.
\<close>

theorem compose_service_blocks:
  assumes "format (optionsOf fo) = ''docker-compose''"
    and "oneLineInputs config (optionsOf fo) now"
  shows "splitLines (generateOutput config fo now) = composeDocument config fo now \<and>
         sublist (postgresServiceLines config (includeComments (optionsOf fo) = Some True))
             (splitLines (generateOutput config fo now)) =
           (getProp config ''DB_TYPE'' = Some ''postgresdb'') \<and>
         sublist (redisServiceLines (includeComments (optionsOf fo) = Some True))
             (splitLines (generateOutput config fo now)) =
           (getProp config ''EXECUTIONS_MODE'' = Some ''queue'') \<and>
         (''  postgres:'' \<in> set (splitLines (generateOutput config fo now))) =
           (getProp config ''DB_TYPE'' = Some ''postgresdb'') \<and>
         (''  redis:'' \<in> set (splitLines (generateOutput config fo now))) =
           (getProp config ''EXECUTIONS_MODE'' = Some ''queue'') \<and>
         suffix (volumesLines (getProp config ''DB_TYPE'' = Some ''postgresdb'')
                   (getProp config ''EXECUTIONS_MODE'' = Some ''queue'')
                   (includeComments (optionsOf fo) = Some True))
           (splitLines (generateOutput config fo now)) \<and>
         (''  postgres_data:'' \<in> set (splitLines (generateOutput config fo now))) =
           (getProp config ''DB_TYPE'' = Some ''postgresdb'') \<and>
         (''  redis_data:'' \<in> set (splitLines (generateOutput config fo now))) =
           (getProp config ''EXECUTIONS_MODE'' = Some ''queue'') \<and>
         generateOutput [(''EXECUTIONS_MODE'', ''queue'')] (FormatString ''docker-compose'') now =
           join NL
             [''version: '' @ SQ @ ''3.8'' @ SQ,
              '''',
              ''services:'',
              ''  n8n:'',
              ''    image: docker.n8n.io/n8nio/n8n'',
              ''    restart: always'',
              ''    ports:'',
              ''      - '' @ DQ @ ''5678:5678'' @ DQ,
              ''    environment:'',
              ''      - EXECUTIONS_MODE=queue'',
              ''    volumes:'',
              ''      - n8n_data:/home/node/.n8n'',
              '''',
              ''  redis:'',
              ''    image: redis:7-alpine'',
              ''    restart: always'',
              ''    volumes:'',
              ''      - redis_data:/data'',
              '''',
              ''volumes:'',
              ''  n8n_data:'',
              ''  redis_data:'']"
proof -
  let ?c = "includeComments (optionsOf fo) = Some True"
  note out = generateOutput_compose[OF assms(1), of config now]
  have lines: "splitLines (generateOutput config fo now) = composeDocument config fo now"
    unfolding out
    by (rule splitLines_join[OF composeDocument_not_Nil oneLine_composeDocument[OF assms(2)]])
  have pg: "sublist (postgresServiceLines config ?c) (composeDocument config fo now) =
           (getProp config ''DB_TYPE'' = Some ''postgresdb'')"
  proof
    assume "sublist (postgresServiceLines config ?c) (composeDocument config fo now)"
    then have "set (postgresServiceLines config ?c) \<subseteq> set (composeDocument config fo now)"
      by (rule set_mono_sublist)
    moreover have "''  postgres:'' \<in> set (postgresServiceLines config ?c)"
      by (simp add: postgresServiceLines_def)
    ultimately have "''  postgres:'' \<in> set (composeDocument config fo now)" by blast
    then show "getProp config ''DB_TYPE'' = Some ''postgresdb''"
      by (simp only: composeDocument_blocks)
  next
    assume "getProp config ''DB_TYPE'' = Some ''postgresdb''"
    then show "sublist (postgresServiceLines config ?c) (composeDocument config fo now)"
      by (rule composeDocument_postgres_sublist)
  qed
  have rd: "sublist (redisServiceLines ?c) (composeDocument config fo now) =
           (getProp config ''EXECUTIONS_MODE'' = Some ''queue'')"
  proof
    assume "sublist (redisServiceLines ?c) (composeDocument config fo now)"
    then have "set (redisServiceLines ?c) \<subseteq> set (composeDocument config fo now)"
      by (rule set_mono_sublist)
    moreover have "''  redis:'' \<in> set (redisServiceLines ?c)"
      by (simp add: redisServiceLines_def)
    ultimately have "''  redis:'' \<in> set (composeDocument config fo now)" by blast
    then show "getProp config ''EXECUTIONS_MODE'' = Some ''queue''"
      by (simp only: composeDocument_blocks)
  next
    assume "getProp config ''EXECUTIONS_MODE'' = Some ''queue''"
    then show "sublist (redisServiceLines ?c) (composeDocument config fo now)"
      by (rule composeDocument_redis_sublist)
  qed
  have vol: "suffix (volumesLines (getProp config ''DB_TYPE'' = Some ''postgresdb'')
                   (getProp config ''EXECUTIONS_MODE'' = Some ''queue'') ?c)
           (composeDocument config fo now)"
    by (simp only: composeDocument_def Let_def append_assoc[symmetric] suffixI)
  have f: "format (optionsOf (FormatString ''docker-compose'')) = ''docker-compose''"
    by (simp add: optionsOf_def)
  have scenario: "generateOutput [(''EXECUTIONS_MODE'', ''queue'')]
        (FormatString ''docker-compose'') now =
           join NL
             [''version: '' @ SQ @ ''3.8'' @ SQ,
              '''',
              ''services:'',
              ''  n8n:'',
              ''    image: docker.n8n.io/n8nio/n8n'',
              ''    restart: always'',
              ''    ports:'',
              ''      - '' @ DQ @ ''5678:5678'' @ DQ,
              ''    environment:'',
              ''      - EXECUTIONS_MODE=queue'',
              ''    volumes:'',
              ''      - n8n_data:/home/node/.n8n'',
              '''',
              ''  redis:'',
              ''    image: redis:7-alpine'',
              ''    restart: always'',
              ''    volumes:'',
              ''      - redis_data:/data'',
              '''',
              ''volumes:'',
              ''  n8n_data:'',
              ''  redis_data:'']"
    unfolding generateOutput_compose[OF f]
    by (simp add: composeDocument_def optionsOf_def composeHeaderLines_def n8nServiceLines_def
        redisServiceLines_def volumesLines_def getProp_def survivingEntries_def
        orDefault_def)
  show ?thesis
    unfolding lines
    by (intro conjI refl pg rd vol scenario composeDocument_blocks)
qed

theorem compose_service_blocks_witness:
  "format (optionsOf (FormatString ''docker-compose'')) = ''docker-compose'' \<and>
   oneLineInputs [(''DB_TYPE'', ''postgresdb''), (''DB_POSTGRESDB_USER'', ''n8n'')]
     (optionsOf (FormatString ''docker-compose'')) ''2026-01-01T00:00:00.000Z'' \<and>
   ''  postgres:'' \<in> set (splitLines (generateOutput
      [(''DB_TYPE'', ''postgresdb''), (''DB_POSTGRESDB_USER'', ''n8n'')]
      (FormatString ''docker-compose'') ''2026-01-01T00:00:00.000Z'')) \<and>
   ''      - POSTGRES_USER=n8n'' \<in> set (splitLines (generateOutput
      [(''DB_TYPE'', ''postgresdb''), (''DB_POSTGRESDB_USER'', ''n8n'')]
      (FormatString ''docker-compose'') ''2026-01-01T00:00:00.000Z'')) \<and>
   ''      - POSTGRES_PASSWORD=password'' \<in> set (splitLines (generateOutput
      [(''DB_TYPE'', ''postgresdb''), (''DB_POSTGRESDB_USER'', ''n8n'')]
      (FormatString ''docker-compose'') ''2026-01-01T00:00:00.000Z'')) \<and>
   ''  redis:'' \<notin> set (splitLines (generateOutput
      [(''DB_TYPE'', ''postgresdb''), (''DB_POSTGRESDB_USER'', ''n8n'')]
      (FormatString ''docker-compose'') ''2026-01-01T00:00:00.000Z''))"
proof -
  let ?config = "[(''DB_TYPE'', ''postgresdb''), (''DB_POSTGRESDB_USER'', ''n8n'')]"
  let ?fo = "FormatString ''docker-compose''"
  let ?now = "''2026-01-01T00:00:00.000Z''"
  let ?lines = "splitLines (generateOutput ?config ?fo ?now)"
  have f: "format (optionsOf ?fo) = ''docker-compose''"
    by (simp add: optionsOf_def)
  have o: "oneLineInputs ?config (optionsOf ?fo) ?now"
    by (simp add: oneLineInputs_def optionsOf_def orDefault_def)
  note inst = compose_service_blocks[OF f o]
  have pg: "getProp ?config ''DB_TYPE'' = Some ''postgresdb''"
    and q: "getProp ?config ''EXECUTIONS_MODE'' \<noteq> Some ''queue''"
    by (simp_all add: getProp_def)
  from inst pg have a: "''  postgres:'' \<in> set ?lines" by blast
  from inst q have b: "''  redis:'' \<notin> set ?lines" by blast
  from inst pg have "sublist (postgresServiceLines ?config (includeComments (optionsOf ?fo) = Some True))
              ?lines" by blast
  then have "set (postgresServiceLines ?config (includeComments (optionsOf ?fo) = Some True))
              \<subseteq> set ?lines"
    by (rule set_mono_sublist)
  moreover have "''      - POSTGRES_USER=n8n'' \<in>
      set (postgresServiceLines ?config (includeComments (optionsOf ?fo) = Some True))"
    "''      - POSTGRES_PASSWORD=password'' \<in>
      set (postgresServiceLines ?config (includeComments (optionsOf ?fo) = Some True))"
    by (simp_all add: postgresServiceLines_def optionsOf_def getProp_def orDefault_def)
  ultimately have c: "''      - POSTGRES_USER=n8n'' \<in> set ?lines"
    and d: "''      - POSTGRES_PASSWORD=password'' \<in> set ?lines"
    by blast+
  from f o a b c d show ?thesis by (intro conjI)
qed

lemma splitLines_not_Nil [simp]: "splitLines s \<noteq> []"
  by (induction s) simp_all

lemma splitLines_append_NL: "splitLines (a @ NL @ b) = splitLines a @ splitLines b"
proof (induction a)
  case Nil
  show ?case by (simp add: NL_def)
next
  case (Cons c a)
  show ?case
  proof (cases "c = CHR 0x0A")
    case True
    with Cons show ?thesis by simp
  next
    case False
    with Cons show ?thesis by (cases "splitLines a") simp_all
  qed
qed

lemma splitLines_join_concat:
  "ls \<noteq> [] \<Longrightarrow> splitLines (join NL ls) = concat (map splitLines ls)"
proof (induction ls)
  case Nil
  then show ?case by simp
next
  case (Cons l ls)
  show ?case
  proof (cases ls)
    case Nil
    then show ?thesis by simp
  next
    case (Cons l' ls')
    with Cons.IH show ?thesis by (simp add: splitLines_append_NL)
  qed
qed

lemma sublist_concat_map:
  assumes "x \<in> set xs"
  shows "sublist (f x) (concat (map f xs))"
proof -
  from assms obtain as bs where "xs = as @ x # bs" by (auto simp: in_set_conv_decomp)
  then have "concat (map f xs) = concat (map f as) @ f x @ concat (map f bs)" by simp
  then show ?thesis by (simp only: sublist_appendI)
qed

lemma sublist_transitive:
  assumes "sublist xs ys" and "sublist ys zs"
  shows "sublist xs zs"
proof -
  from assms obtain p s q t where "ys = p @ xs @ s" "zs = q @ ys @ t"
    by (auto simp: sublist_def)
  then have "zs = (q @ p) @ xs @ (s @ t)" by simp
  then show ?thesis by (simp only: sublist_appendI)
qed

text \<open>
  The claim as it stands fails for a value that holds line breaks: the value of \<^verbatim>\<open>FOO\<close>
  below is \<^verbatim>\<open>x\<close> followed by the lines of a database service block, and the output
  contains that block although \<^verbatim>\<open>DB_TYPE\<close> is not set.
\<close>

theorem compose_service_blocks_counterexample:
  "getProp [(''FOO'', join NL (''x'' # postgresServiceLines [] False))] ''DB_TYPE'' \<noteq>
     Some ''postgresdb'' \<and>
   sublist
     (postgresServiceLines [(''FOO'', join NL (''x'' # postgresServiceLines [] False))] False)
     (splitLines (generateOutput
        [(''FOO'', join NL (''x'' # postgresServiceLines [] False))]
        (FormatString ''docker-compose'') ''2026-01-01T00:00:00.000Z'')) \<and>
   ''  postgres:'' \<in> set (splitLines (generateOutput
        [(''FOO'', join NL (''x'' # postgresServiceLines [] False))]
        (FormatString ''docker-compose'') ''2026-01-01T00:00:00.000Z''))"
proof -
  let ?block = "postgresServiceLines [] False"
  let ?config = "[(''FOO'', join NL (''x'' # ?block))]"
  let ?fo = "FormatString ''docker-compose''"
  let ?now = "''2026-01-01T00:00:00.000Z''"
  let ?entry = "''      - FOO='' @ join NL (''x'' # ?block)"
  let ?lines = "splitLines (generateOutput ?config ?fo ?now)"
  have f: "format (optionsOf ?fo) = ''docker-compose''"
    by (simp add: optionsOf_def)
  have a: "getProp ?config ''DB_TYPE'' \<noteq> Some ''postgresdb''"
    by (simp add: getProp_def)
  have same: "postgresServiceLines ?config False = ?block"
    by (simp add: postgresServiceLines_def getProp_def)
  have ne: "join NL (''x'' # ?block) \<noteq> ''''"
    by (simp add: postgresServiceLines_def)
  have ents: "survivingEntries ?config False = ?config"
    using ne by (simp add: survivingEntries_def)
  have mem: "?entry \<in> set (composeDocument ?config ?fo ?now)"
    by (simp add: composeDocument_def Let_def optionsOf_def ents n8nServiceLines_def)
  have one: "list_all oneLine ((''      - FOO='' @ ''x'') # ?block)"
    by (simp add: postgresServiceLines_def orDefault_def getProp_def)
  have "?entry = join NL ((''      - FOO='' @ ''x'') # ?block)"
    by (simp add: postgresServiceLines_def)
  then have "splitLines ?entry = [''      - FOO='' @ ''x''] @ ?block @ []"
    using splitLines_join[OF _ one] by simp
  then have s1: "sublist ?block (splitLines ?entry)"
    by (simp only: sublist_appendI)
  have "?lines = concat (map splitLines (composeDocument ?config ?fo ?now))"
    unfolding generateOutput_compose[OF f]
    by (rule splitLines_join_concat[OF composeDocument_not_Nil])
  with sublist_concat_map[OF mem, of splitLines]
  have s2: "sublist (splitLines ?entry) ?lines" by simp
  from sublist_transitive[OF s1 s2] have b: "sublist ?block ?lines" .
  then have "set ?block \<subseteq> set ?lines" by (rule set_mono_sublist)
  moreover have "''  postgres:'' \<in> set ?block" by (simp add: postgresServiceLines_def)
  ultimately have c: "''  postgres:'' \<in> set ?lines" by blast
  from a b c show ?thesis unfolding same by (intro conjI)
qed

end
